theory Spec2Isabelle
  imports Main "HOL-Library.Word"
begin

unbundle bit_operations_syntax

section \<open>Machine types and externals of \<open>runtime_unix.go\<close>\<close>

text \<open>
  Go's \<open>uint32\<close> and \<open>int32\<close> are 32-bit words (\<open>sint\<close> reads an \<open>int32\<close>), \<open>uint64\<close> and
  \<open>int64\<close> are 64-bit words. A conversion between the signed and the unsigned type of one
  width keeps the bits, so it is the identity on the word.
\<close>

type_synonym uint32 = "32 word"
type_synonym int32 = "32 word"
type_synonym uint64 = "64 word"
type_synonym int64 = "64 word"

text \<open>
  \<open>runtimePanic\<close> and \<open>runtimePanicAt\<close> print their message and halt the process: a
  function that reaches one returns \<open>Inl\<close> of the message and no state.
\<close>

datatype panic = RuntimePanic string

text \<open>
  The calls that leave the file (the \<open>//export\<close> declarations without a body), in the
  order the program makes them, with their arguments.
\<close>

datatype call =
    Usleep nat
  | Tinygo_wfi_mask uint32
  | Tinygo_wfi_sleep uint32 uint64
  | Tinygo_wfi_wait uint32
  | Tinygo_wfi_unmask
  | Tinygo_signal_enable uint32
  | Tinygo_signal_ignore uint32
  | Tinygo_signal_disable uint32
  | Libc_clock_gettime int32
  | Libc_clock_gettime64 int32

text \<open>
  What the build fixes: \<open>GOOS\<close>, \<open>TargetBits\<close> and the two clock identifiers are
  constants of the target, declared outside this file. \<open>TargetBits\<close> is also the width of
  \<open>uint\<close> and \<open>uintptr\<close>.
\<close>

record target =
  GOOS :: string
  TargetBits :: nat
  clock_REALTIME :: int32
  clock_MONOTONIC_RAW :: int32

text \<open>A \<open>timespec\<close> with the two 64-bit fields of the time64 layout.\<close>

record timespec =
  tv_sec :: int64
  tv_nsec :: int64

text \<open>
  What the kernel and the C side answer. \<open>mmap k len\<close> is the pointer \<open>mmap\<close> returns
  for a mapping of \<open>len\<close> bytes (the other arguments are constants; \<open>preinit\<close> asks for
  each length once). \<open>usleep k usec\<close> is the result of \<open>usleep\<close>, and
  \<open>usleep_signals k usec\<close> lists the signals the kernel delivers to the handler while the
  process is in that call, in order. \<open>tinygo_wfi_sleep\<close> and \<open>tinygo_wfi_wait\<close> give the value
  the call returns with; the signals of the active set are blocked from \<open>tinygo_wfi_mask\<close>
  to \<open>tinygo_wfi_unmask\<close>, so no handler runs in between. The two clock calls fill a
  \<open>timespec\<close>.
\<close>

record kernel =
  mmap :: "nat \<Rightarrow> nat"
  usleep :: "nat \<Rightarrow> int"
  usleep_signals :: "nat \<Rightarrow> int32 list"
  tinygo_wfi_sleep :: "uint32 \<Rightarrow> uint64 \<Rightarrow> int32"
  tinygo_wfi_wait :: "uint32 \<Rightarrow> int32"
  libc_clock_gettime :: "int32 \<Rightarrow> timespec"
  libc_clock_gettime64 :: "int32 \<Rightarrow> timespec"

section \<open>The signal state\<close>

text \<open>
  A buffered Go channel of \<open>uint32\<close>: the values waiting in it, oldest first, and its
  capacity. No receiver is parked on the channel while the functions below run (the
  scheduler is cooperative and they do not yield).
\<close>

record chan =
  chan_buf :: "uint32 list"
  chan_cap :: nat

definition make_chan :: "nat \<Rightarrow> chan" where
  "make_chan n = \<lparr>chan_buf = [], chan_cap = n\<rparr>"

text \<open>
  The non-blocking send of a \<open>select\<close> with a \<open>default\<close> case: \<open>None\<close> is the
  \<open>default\<close> branch, taken when the buffer has no room.
\<close>

definition chan_try_send :: "chan \<Rightarrow> uint32 \<Rightarrow> chan option" where
  "chan_try_send c v =
     (if length (chan_buf c) < chan_cap c then Some (c\<lparr>chan_buf := chan_buf c @ [v]\<rparr>)
      else None)"

text \<open>The receive \<open><-c\<close>: \<open>None\<close> when the buffer is empty and the receiving task parks.\<close>

definition chan_recv :: "chan \<Rightarrow> (uint32 \<times> chan) option" where
  "chan_recv c =
     (case chan_buf c of [] \<Rightarrow> None | v # vs \<Rightarrow> Some (v, c\<lparr>chan_buf := vs\<rparr>))"

text \<open>
  The package-level variables of the signal code and the trace of external calls. The
  functions of the file run one at a time on this state: the handler, which the kernel
  starts on its own, runs between two of them or during \<open>usleep\<close>, not between a load of
  \<open>receivedSignals\<close> and the compare-and-swap that follows it. The retry branches of the
  two compare-and-swap loops are modelled as written.
\<close>

record runtime =
  signalChan :: chan
  hasSignals :: bool
  receivedSignals :: uint32
  activeSignals :: uint32
  calls :: "call list"

text \<open>
  The variables as the program starts, after \<open>init()\<close> has made the channel with
  capacity 1.
\<close>

definition init :: runtime where
  "init = \<lparr>signalChan = make_chan 1, hasSignals = False, receivedSignals = 0,
            activeSignals = 0, calls = []\<rparr>"

text \<open>
  \<open>atomic.LoadUint32(&receivedSignals)\<close> and
  \<open>atomic.CompareAndSwapUint32(&receivedSignals, old, new)\<close>; \<open>receivedSignals\<close> is the
  only address they are used on.
\<close>

definition LoadUint32 :: "runtime \<Rightarrow> uint32" where
  "LoadUint32 st = receivedSignals st"

definition CompareAndSwapUint32 :: "runtime \<Rightarrow> uint32 \<Rightarrow> uint32 \<Rightarrow> bool \<times> runtime" where
  "CompareAndSwapUint32 st old new =
     (if receivedSignals st = old then (True, st\<lparr>receivedSignals := new\<rparr>) else (False, st))"

text \<open>
  \<open>bits.TrailingZeros32\<close> of the Go library: the number of trailing zero bits, 32 for 0.
\<close>

definition TrailingZeros32 :: "uint32 \<Rightarrow> nat" where
  "TrailingZeros32 x = length (takeWhile (\<lambda>n. \<not> bit x n) [0..<32])"

subsection \<open>The handler\<close>

text \<open>
  \<open>tinygo_signal_handler\<close>: the retry loop that ORs \<open>uint32(1) << uint32(s)\<close> into
  \<open>receivedSignals\<close>. A Go shift by 32 or more gives 0, as \<open>push_bit\<close> on a word does.
\<close>

function tinygo_signal_handler :: "runtime \<Rightarrow> int32 \<Rightarrow> runtime" where
  "tinygo_signal_handler st s =
     (let mask = push_bit (unat s) (1 :: uint32);
          val = LoadUint32 st;
          r = CompareAndSwapUint32 st val (val OR mask)
      in if fst r then snd r else tinygo_signal_handler (snd r) s)"
  by pat_completeness auto
termination
  by (relation "{}") (auto simp: LoadUint32_def CompareAndSwapUint32_def)

subsection \<open>Draining\<close>

text \<open>
  The inner loop of \<open>checkSignals\<close> that clears bit \<open>num\<close>: \<open>val\<close> is the last value read
  from \<open>receivedSignals\<close>.
\<close>

function clear_loop :: "runtime \<Rightarrow> uint32 \<Rightarrow> nat \<Rightarrow> runtime" where
  "clear_loop st val num =
     (let newVal = val AND NOT (push_bit num 1);
          r = CompareAndSwapUint32 st val newVal
      in if fst r then snd r else clear_loop (snd r) (LoadUint32 (snd r)) num)"
  by pat_completeness auto
termination
  by (relation "measure (\<lambda>(st, val, num). if receivedSignals st = val then 0 else 1)")
     (auto simp: LoadUint32_def CompareAndSwapUint32_def)

subsection \<open>Facts about the lowest set bit and the two retry loops\<close>

lemma tw_le: "length (takeWhile P [0..<n]) \<le> n"
  using length_takeWhile_le [of P "[0..<n]"] by simp

lemma tw_below:
  assumes "m < length (takeWhile P [0..<n])"
  shows "P m"
proof -
  let ?l = "takeWhile P [0..<n]"
  have mn: "m < n" using assms tw_le [of P n] by simp
  have "?l ! m \<in> set ?l" using assms by simp
  then have "P (?l ! m)" by (rule set_takeWhileD [THEN conjunct2])
  moreover have "?l ! m = [0..<n] ! m" using assms by (rule takeWhile_nth)
  ultimately show ?thesis using mn by simp
qed

lemma tw_all:
  assumes "\<forall>k<n. P k"
  shows "length (takeWhile P [0..<n]) = n"
proof -
  have "takeWhile P [0..<n] = [0..<n]"
    unfolding takeWhile_eq_all_conv using assms by simp
  then have "length (takeWhile P [0..<n]) = length [0..<n]" by (rule arg_cong)
  then show ?thesis by (simp only: length_upt diff_zero)
qed

lemma tw_at:
  assumes "\<exists>k<n. \<not> P k"
  shows "length (takeWhile P [0..<n]) < n \<and> \<not> P (length (takeWhile P [0..<n]))"
proof -
  let ?k = "length (takeWhile P [0..<n])"
  have ne: "takeWhile P [0..<n] \<noteq> [0..<n]"
    unfolding takeWhile_eq_all_conv using assms by auto
  have "?k \<noteq> length [0..<n]"
  proof
    assume "?k = length [0..<n]"
    then have "take ?k [0..<n] = [0..<n]" by simp
    then show False using ne takeWhile_eq_take [of P "[0..<n]"] by simp
  qed
  then have lt: "?k < length [0..<n]"
    using length_takeWhile_le [of P "[0..<n]"] by simp
  then have "\<not> P ([0..<n] ! ?k)" by (rule nth_length_takeWhile)
  moreover have "[0..<n] ! ?k = ?k" using lt by simp
  ultimately show ?thesis using lt by simp
qed

lemma TrailingZeros32_le: "TrailingZeros32 x \<le> 32"
  unfolding TrailingZeros32_def by (rule tw_le)

lemma TrailingZeros32_zero: "TrailingZeros32 0 = 32"
  unfolding TrailingZeros32_def by (rule tw_all) simp

lemma TrailingZeros32_below: "m < TrailingZeros32 x \<Longrightarrow> \<not> bit x m"
  unfolding TrailingZeros32_def by (rule tw_below)

lemma word32_nonzero_bit: "(x :: uint32) \<noteq> 0 \<Longrightarrow> \<exists>k<32. bit x k"
proof (rule ccontr)
  assume nz: "x \<noteq> 0" and "\<not> (\<exists>k<32. bit x k)"
  then have "\<forall>k. \<not> bit x k" using bit_imp_le_length [of x] by fastforce
  then have "x = 0" by (simp add: bit_eq_iff)
  with nz show False by simp
qed

lemma TrailingZeros32_bit: "x \<noteq> 0 \<Longrightarrow> bit x (TrailingZeros32 x)"
  unfolding TrailingZeros32_def
  using tw_at [of 32 "\<lambda>n. \<not> bit x n"] word32_nonzero_bit [of x] by simp

lemma TrailingZeros32_lt: "x \<noteq> 0 \<Longrightarrow> TrailingZeros32 x < 32"
  using TrailingZeros32_bit [of x] bit_imp_le_length [of x "TrailingZeros32 x"] by simp

lemma clear_loop_eq:
  "clear_loop st val num = st\<lparr>receivedSignals := receivedSignals st AND NOT (push_bit num 1)\<rparr>"
  apply (subst clear_loop.simps)
  apply (subst clear_loop.simps)
  apply (auto simp: LoadUint32_def CompareAndSwapUint32_def Let_def)
  done

declare clear_loop.simps [simp del]

lemma tinygo_signal_handler_eq:
  "tinygo_signal_handler st s = st\<lparr>receivedSignals := receivedSignals st OR push_bit (unat s) 1\<rparr>"
  by (simp add: LoadUint32_def CompareAndSwapUint32_def Let_def)

declare tinygo_signal_handler.simps [simp del]

lemma clear_bit_less: "bit (x :: uint32) n \<Longrightarrow> x AND NOT (push_bit n 1) < x"
proof -
  assume b: "bit x n"
  have "x AND NOT (push_bit n 1) \<le> x" by (rule word_and_le2)
  moreover have "x AND NOT (push_bit n 1) \<noteq> x"
  proof
    assume "x AND NOT (push_bit n 1) = x"
    then have "bit (x AND NOT (push_bit n 1)) n" using b by simp
    then show False by (simp add: bit_simps)
  qed
  ultimately show ?thesis by simp
qed


text \<open>
  \<open>checkSignals\<close>: the outer loop, with \<open>gotSignals\<close> as its accumulator. \<open>num\<close> is
  sent as a \<open>uint32\<close>.
\<close>

function checkSignals_loop :: "runtime \<Rightarrow> bool \<Rightarrow> bool \<times> runtime" where
  "checkSignals_loop st gotSignals =
     (let val = LoadUint32 st in
      if val = 0 then (gotSignals, st)
      else
        let num = TrailingZeros32 val in
        (case chan_try_send (signalChan st) (of_nat num) of
           None \<Rightarrow> (gotSignals, st)
         | Some c \<Rightarrow> checkSignals_loop (clear_loop (st\<lparr>signalChan := c\<rparr>) val num) True))"
  by pat_completeness auto
termination
proof (relation "measure (\<lambda>(st, g). unat (receivedSignals st))")
  fix st :: runtime and gotSignals :: bool and val num c
  assume "val = LoadUint32 st" "val \<noteq> 0" "num = TrailingZeros32 val"
  then have "receivedSignals st AND NOT (push_bit num 1) < receivedSignals st"
    by (simp add: LoadUint32_def clear_bit_less TrailingZeros32_bit del: push_bit_of_1)
  then show "((clear_loop (st\<lparr>signalChan := c\<rparr>) val num, True), st, gotSignals)
      \<in> measure (\<lambda>(st, g). unat (receivedSignals st))"
    by (simp add: clear_loop_eq word_less_nat_alt del: push_bit_of_1)
qed simp

definition checkSignals :: "runtime \<Rightarrow> bool \<times> runtime" where
  "checkSignals st = checkSignals_loop st False"

text \<open>
  For the statements about \<open>checkSignals\<close>: \<open>pending w\<close> lists the signal numbers whose bit
  is set in \<open>w\<close>, lowest first; \<open>clear_bits ns w\<close> is \<open>w\<close> with the bits \<open>ns\<close> cleared;
  \<open>drained st\<close> is the pending numbers that fit into the free room of the channel.
\<close>

definition pending :: "uint32 \<Rightarrow> nat list" where
  "pending w = filter (bit w) [0..<32]"

definition clear_bits :: "nat list \<Rightarrow> uint32 \<Rightarrow> uint32" where
  "clear_bits ns w = fold (\<lambda>n v. v AND NOT (push_bit n 1)) ns w"

definition drained :: "runtime \<Rightarrow> nat list" where
  "drained st =
     take (chan_cap (signalChan st) - length (chan_buf (signalChan st)))
       (pending (receivedSignals st))"

subsection \<open>Registering signals\<close>

text \<open>An external call that returns nothing: it is added to the trace.\<close>

definition extern :: "call \<Rightarrow> runtime \<Rightarrow> runtime" where
  "extern c st = st\<lparr>calls := calls st @ [c]\<rparr>"

definition signal_enable :: "runtime \<Rightarrow> uint32 \<Rightarrow> panic + runtime" where
  "signal_enable st s =
     (if s \<ge> 32 then Inl (RuntimePanic ''unsupported signal number'')
      else Inr (extern (Tinygo_signal_enable s)
             (st\<lparr>hasSignals := True,
                 activeSignals := activeSignals st OR push_bit (unat s) 1\<rparr>)))"

definition signal_ignore :: "runtime \<Rightarrow> uint32 \<Rightarrow> panic + runtime" where
  "signal_ignore st s =
     (if s \<ge> 32 then Inl (RuntimePanic ''unsupported signal number'')
      else Inr (extern (Tinygo_signal_ignore s)
             (st\<lparr>activeSignals := activeSignals st AND NOT (push_bit (unat s) 1)\<rparr>)))"

definition signal_disable :: "runtime \<Rightarrow> uint32 \<Rightarrow> panic + runtime" where
  "signal_disable st s =
     (if s \<ge> 32 then Inl (RuntimePanic ''unsupported signal number'')
      else Inr (extern (Tinygo_signal_disable s)
             (st\<lparr>activeSignals := activeSignals st AND NOT (push_bit (unat s) 1)\<rparr>)))"

text \<open>
  \<open>signal_recv\<close>: the receive from the channel, then \<open>checkSignals\<close>; \<open>None\<close> when the
  channel is empty and the caller parks.
\<close>

definition signal_recv :: "runtime \<Rightarrow> (uint32 \<times> runtime) option" where
  "signal_recv st =
     (case chan_recv (signalChan st) of
        None \<Rightarrow> None
      | Some (val, c) \<Rightarrow> Some (val, snd (checkSignals (st\<lparr>signalChan := c\<rparr>))))"

subsection \<open>Sleeping and waiting\<close>

text \<open>\<open>uint(d)\<close> for an \<open>int64\<close>: the low \<open>TargetBits\<close> bits, read unsigned.\<close>

definition uint_of :: "target \<Rightarrow> int64 \<Rightarrow> nat" where
  "uint_of tg d = unat d mod 2 ^ TargetBits tg"

text \<open>
  The call \<open>usleep(usec)\<close>: the handler runs for every signal delivered during the call,
  then the call returns its result.
\<close>

definition call_usleep :: "kernel \<Rightarrow> runtime \<Rightarrow> nat \<Rightarrow> int \<times> runtime" where
  "call_usleep k st usec =
     (usleep k usec,
      fold (\<lambda>s st'. tinygo_signal_handler st' s) (usleep_signals k usec)
        (extern (Usleep usec) st))"

definition sleepTicks :: "target \<Rightarrow> kernel \<Rightarrow> runtime \<Rightarrow> int64 \<Rightarrow> runtime" where
  "sleepTicks tg k st d =
     (if \<not> hasSignals st then snd (call_usleep k st (uint_of tg d div 1000))
      else if GOOS tg = ''darwin'' then
        (let r = checkSignals st in
         if fst r then snd r
         else
           let u = call_usleep k (snd r) (uint_of tg d div 1000) in
           if fst u \<noteq> 0 then snd (checkSignals (snd u)) else snd u)
      else
        (let st1 = extern (Tinygo_wfi_mask (activeSignals st)) st;
             r = checkSignals st1 in
         if fst r then extern Tinygo_wfi_unmask (snd r)
         else
           let st2 = snd r;
               signal = tinygo_wfi_sleep k (activeSignals st2) d;
               st3 = extern (Tinygo_wfi_sleep (activeSignals st2) d) st2;
               st4 = (if 0 \<le> sint signal
                      then snd (checkSignals (tinygo_signal_handler st3 signal))
                      else st3)
           in extern Tinygo_wfi_unmask st4))"

definition waitForEvents :: "kernel \<Rightarrow> runtime \<Rightarrow> panic + runtime" where
  "waitForEvents k st =
     (if hasSignals st then
        (let st1 = extern (Tinygo_wfi_mask (activeSignals st)) st;
             r = checkSignals st1 in
         if fst r then Inr (extern Tinygo_wfi_unmask (snd r))
         else
           let st2 = snd r;
               signal = tinygo_wfi_wait k (activeSignals st2);
               st3 = extern (Tinygo_wfi_wait (activeSignals st2)) st2;
               st4 = tinygo_signal_handler st3 signal;
               st5 = snd (checkSignals st4)
           in Inr (extern Tinygo_wfi_unmask st5))
      else Inl (RuntimePanic ''deadlocked: no event source''))"

section \<open>The clock\<close>

definition clock_gettime :: "target \<Rightarrow> kernel \<Rightarrow> runtime \<Rightarrow> int32 \<Rightarrow> timespec \<times> runtime" where
  "clock_gettime tg k st clk_id =
     (if TargetBits tg = 32
      then (libc_clock_gettime64 k clk_id, extern (Libc_clock_gettime64 clk_id) st)
      else (libc_clock_gettime k clk_id, extern (Libc_clock_gettime clk_id) st))"

definition getTime :: "target \<Rightarrow> kernel \<Rightarrow> runtime \<Rightarrow> int32 \<Rightarrow> uint64 \<times> runtime" where
  "getTime tg k st clock =
     (let r = clock_gettime tg k st clock; ts = fst r
      in (tv_sec ts * 1000 * 1000 * 1000 + tv_nsec ts, snd r))"

text \<open>
  \<open>monotime\<close> and \<open>ticks\<close>; the conversion to \<open>timeUnit\<close> keeps the bits. \<open>now\<close> reads the
  wall clock and then calls \<open>nanotime\<close>, a function of the runtime outside this file,
  taken as a parameter; \<open>int32(ts.tv_nsec)\<close> keeps the low 32 bits.
\<close>

definition monotime :: "target \<Rightarrow> kernel \<Rightarrow> runtime \<Rightarrow> uint64 \<times> runtime" where
  "monotime tg k st = getTime tg k st (clock_MONOTONIC_RAW tg)"

definition ticks :: "target \<Rightarrow> kernel \<Rightarrow> runtime \<Rightarrow> int64 \<times> runtime" where
  "ticks tg k st = monotime tg k st"

definition now ::
  "target \<Rightarrow> kernel \<Rightarrow> (runtime \<Rightarrow> int64 \<times> runtime) \<Rightarrow> runtime \<Rightarrow>
     (int64 \<times> int32 \<times> int64) \<times> runtime" where
  "now tg k nanotime st =
     (let r = clock_gettime tg k st (clock_REALTIME tg); ts = fst r;
          sec = tv_sec ts; nsec = ucast (tv_nsec ts) :: int32;
          m = nanotime (snd r)
      in ((sec, nsec, fst m), snd m))"

section \<open>The heap\<close>

text \<open>
  A \<open>uintptr\<close> is a natural number below \<open>2 ^ TargetBits\<close>; \<open>uintptr tg\<close> wraps the
  result of an operation. \<open>and_not\<close> is Go's \<open>&^\<close>.
\<close>

definition uintptr :: "target \<Rightarrow> nat \<Rightarrow> nat" where
  "uintptr tg x = x mod 2 ^ TargetBits tg"

definition and_not :: "nat \<Rightarrow> nat \<Rightarrow> nat" where
  "and_not x m = nat (int x AND NOT (int m))"

record heap =
  heapSize :: nat
  heapMaxSize :: nat
  heapStart :: nat
  heapEnd :: nat

text \<open>The four variables as the program starts.\<close>

definition heap_init :: heap where
  "heap_init = \<lparr>heapSize = 128 * 1024, heapMaxSize = 0, heapStart = 0, heapEnd = 0\<rparr>"

text \<open>
  The loop of \<open>preinit\<close>. \<open>mmap\<close> reports failure by the pointer \<open>^uintptr(0)\<close>, all bits
  set.
\<close>

function preinit_loop :: "target \<Rightarrow> kernel \<Rightarrow> heap \<Rightarrow> panic + heap" where
  "preinit_loop tg k h =
     (let addr = mmap k (heapMaxSize h) in
      if addr = 2 ^ TargetBits tg - 1 then
        (let h' = h\<lparr>heapMaxSize := heapMaxSize h div 2\<rparr> in
         if heapMaxSize h' < 4096 then Inl (RuntimePanic ''cannot allocate heap memory'')
         else preinit_loop tg k h')
      else
        (let h' = h\<lparr>heapStart := addr\<rparr>
         in Inr (h'\<lparr>heapEnd := uintptr tg (heapStart h' + heapSize h')\<rparr>)))"
  by pat_completeness auto
termination
  by (relation "measure (\<lambda>(tg, k, h). heapMaxSize h)") auto

declare preinit_loop.simps [simp del]

definition preinit :: "target \<Rightarrow> kernel \<Rightarrow> heap \<Rightarrow> panic + heap" where
  "preinit tg k h =
     preinit_loop tg k (h\<lparr>heapMaxSize := uintptr tg (1 * 1024 * 1024 * 1024)\<rparr>)"

text \<open>
  Modelled from the spec: \<open>setHeapEnd\<close>, the allocator's function that \<open>growHeap\<close> calls
  with the new boundary, is not in this file. The spec says of \<open>grow\<close>: ``update
  \<open>activeEnd\<close> accordingly and notify the allocator of the new boundary''.
\<close>

definition setHeapEnd :: "heap \<Rightarrow> nat \<Rightarrow> heap" where
  "setHeapEnd h newHeapEnd = h\<lparr>heapEnd := newHeapEnd\<rparr>"

definition growHeap :: "target \<Rightarrow> heap \<Rightarrow> bool \<times> heap" where
  "growHeap tg h =
     (if heapSize h = heapMaxSize h then (False, h)
      else
        let h1 = h\<lparr>heapSize := and_not (uintptr tg (heapSize h * 4) div 3) 4095\<rparr>;
            h2 = (if heapSize h1 > heapMaxSize h1 then h1\<lparr>heapSize := heapMaxSize h1\<rparr>
                  else h1)
        in (True, setHeapEnd h2 (uintptr tg (heapStart h2 + heapSize h2))))"

text \<open>\<open>n\<close> calls of \<open>growHeap\<close> in a row, whatever each returns.\<close>

fun grows :: "target \<Rightarrow> nat \<Rightarrow> heap \<Rightarrow> heap" where
  "grows tg 0 h = h"
| "grows tg (Suc n) h = grows tg n (snd (growHeap tg h))"

section \<open>Sequences of operations, and the states and kernels of the examples\<close>

text \<open>
  A kernel for the examples: every \<open>mmap\<close> succeeds at address 0x10000000, \<open>usleep\<close> runs
  its full time with no signal, \<open>tinygo_wfi_sleep\<close> times out and \<open>tinygo_wfi_wait\<close> wakes
  with signal 2.
\<close>

definition kernel0 :: kernel where
  "kernel0 =
     \<lparr>mmap = (\<lambda>len. 268435456), usleep = (\<lambda>usec. 0), usleep_signals = (\<lambda>usec. []),
      tinygo_wfi_sleep = (\<lambda>active timeout. - 1), tinygo_wfi_wait = (\<lambda>active. 2),
      libc_clock_gettime = (\<lambda>clk_id. \<lparr>tv_sec = 0, tv_nsec = 0\<rparr>),
      libc_clock_gettime64 = (\<lambda>clk_id. \<lparr>tv_sec = 0, tv_nsec = 0\<rparr>)\<rparr>"

text \<open>
  The operations of the file on the signal state, for statements about every sequence of
  them: \<open>apply_op\<close> runs one (\<open>None\<close> when it halts the process or parks the caller),
  \<open>run_ops\<close> a list of them. \<open>SleepTicks\<close> and \<open>WaitForEvents\<close> carry what the kernel
  answers during the call. \<open>signal_waitUntilIdle\<close> is a sequence of \<open>checkSignals\<close> calls
  with yields to other tasks in between, so it is covered by \<open>CheckSignals\<close> and what
  those tasks do.
\<close>

datatype op =
    Enable uint32
  | Ignore uint32
  | Disable uint32
  | Handler int32
  | CheckSignals
  | Recv
  | SleepTicks kernel int64
  | WaitForEvents kernel

fun apply_op :: "target \<Rightarrow> runtime \<Rightarrow> op \<Rightarrow> runtime option" where
  "apply_op tg st (Enable s) = (case signal_enable st s of Inl p \<Rightarrow> None | Inr st' \<Rightarrow> Some st')"
| "apply_op tg st (Ignore s) = (case signal_ignore st s of Inl p \<Rightarrow> None | Inr st' \<Rightarrow> Some st')"
| "apply_op tg st (Disable s) = (case signal_disable st s of Inl p \<Rightarrow> None | Inr st' \<Rightarrow> Some st')"
| "apply_op tg st (Handler s) = Some (tinygo_signal_handler st s)"
| "apply_op tg st CheckSignals = Some (snd (checkSignals st))"
| "apply_op tg st Recv = (case signal_recv st of None \<Rightarrow> None | Some r \<Rightarrow> Some (snd r))"
| "apply_op tg st (SleepTicks k d) = Some (sleepTicks tg k st d)"
| "apply_op tg st (WaitForEvents k) =
     (case waitForEvents k st of Inl p \<Rightarrow> None | Inr st' \<Rightarrow> Some st')"

fun run_ops :: "target \<Rightarrow> runtime \<Rightarrow> op list \<Rightarrow> runtime option" where
  "run_ops tg st [] = Some st"
| "run_ops tg st (x # xs) =
     (case apply_op tg st x of None \<Rightarrow> None | Some st' \<Rightarrow> run_ops tg st' xs)"

text \<open>
  Two targets, a kernel that delivers signal 2 to the handler during \<open>usleep\<close> and still
  returns 0 from it, and the state after \<open>signal_enable(2)\<close> from the start.
\<close>

definition darwin64 :: target where
  "darwin64 =
     \<lparr>GOOS = ''darwin'', TargetBits = 64, clock_REALTIME = 0, clock_MONOTONIC_RAW = 4\<rparr>"

definition linux32 :: target where
  "linux32 =
     \<lparr>GOOS = ''linux'', TargetBits = 32, clock_REALTIME = 0, clock_MONOTONIC_RAW = 4\<rparr>"

definition late_signal :: kernel where
  "late_signal = kernel0\<lparr>usleep_signals := (\<lambda>usec. [2])\<rparr>"

definition interested :: runtime where
  "interested =
     init\<lparr>hasSignals := True, activeSignals := 4, calls := [Tinygo_signal_enable 2]\<rparr>"

text \<open>
  The state after \<open>signal_enable(2)\<close>, \<open>signal_enable(3)\<close>, the handler run for 2 and
  for 3, and a drain: 2 is in the channel, which is full, and 3 is pending.
\<close>

definition pending_behind_full :: runtime where
  "pending_behind_full =
     \<lparr>signalChan = \<lparr>chan_buf = [2], chan_cap = 1\<rparr>, hasSignals = True,
      receivedSignals = 8, activeSignals = 12,
      calls = [Tinygo_signal_enable 2, Tinygo_signal_enable 3]\<rparr>"

text \<open>
  The sizes \<open>preinit\<close> can ask for: 1 GiB, then half of the one before, down to the last
  one not below 4096. \<open>halving\<close> says so of a list; \<open>mapped tg k len\<close> says that \<open>mmap\<close>
  does not fail on \<open>len\<close>.
\<close>

definition candidates :: "nat list" where
  "candidates =
    [1073741824, 536870912, 268435456, 134217728, 67108864, 33554432, 16777216,
     8388608, 4194304, 2097152, 1048576, 524288, 262144, 131072, 65536, 32768, 16384, 8192,
     4096]"

definition mapped :: "target \<Rightarrow> kernel \<Rightarrow> nat \<Rightarrow> bool" where
  "mapped tg k len \<longleftrightarrow> mmap k len \<noteq> 2 ^ TargetBits tg - 1"

fun halving :: "nat list \<Rightarrow> bool" where
  "halving [] = False"
| "halving [m] = (m div 2 < 4096)"
| "halving (m # m' # ms) = (m' = m div 2 \<and> \<not> m' < 4096 \<and> halving (m' # ms))"

text \<open>
  What holds of the heap variables after \<open>preinit\<close> and any number of calls of
  \<open>growHeap\<close>. \<open>heapSize\<close> starts at 128 KiB whatever was reserved, so it is bounded by
  the larger of the two.
\<close>

definition heap_inv :: "heap \<Rightarrow> bool" where
  "heap_inv h \<longleftrightarrow>
     4096 \<le> heapMaxSize h \<and> heapMaxSize h \<le> 1073741824 \<and> 4096 dvd heapMaxSize h \<and>
     4096 dvd heapSize h \<and>
     min 131072 (heapMaxSize h) \<le> heapSize h \<and> heapSize h \<le> max 131072 (heapMaxSize h)"

text \<open>The heap after \<open>preinit\<close> when the first \<open>mmap\<close> succeeds, at address 0x10000000.\<close>

definition reserved_1GiB :: heap where
  "reserved_1GiB =
     \<lparr>heapSize = 131072, heapMaxSize = 1073741824, heapStart = 268435456,
      heapEnd = 268566528\<rparr>"

text \<open>
  Two kernels: one where every \<open>mmap\<close> fails, one where \<open>mmap\<close> fails above 64 KiB; and
  the heap \<open>preinit\<close> builds on the second.
\<close>

definition no_memory :: kernel where
  "no_memory = kernel0\<lparr>mmap := (\<lambda>len. 2 ^ 32 - 1)\<rparr>"

definition tight_kernel :: kernel where
  "tight_kernel = kernel0\<lparr>mmap := (\<lambda>len. if 65536 < len then 2 ^ 32 - 1 else 268435456)\<rparr>"

definition reserved_64KiB :: heap where
  "reserved_64KiB =
     \<lparr>heapSize = 131072, heapMaxSize = 65536, heapStart = 268435456,
      heapEnd = 268566528\<rparr>"

text \<open>
  A kernel whose 64-bit-safe clock call reads 2 ^ 31 seconds and 5 nanoseconds, a time
  after January 2038.
\<close>

definition y2038_kernel :: kernel where
  "y2038_kernel =
     kernel0\<lparr>libc_clock_gettime64 := (\<lambda>clk_id. \<lparr>tv_sec = 2147483648, tv_nsec = 5\<rparr>)\<rparr>"

section \<open>Draining delivers the lowest pending signals and loses none\<close>

lemma bit_clear_one: "bit ((w :: uint32) AND NOT (push_bit k 1)) n \<longleftrightarrow> bit w n \<and> n \<noteq> k"
  by (auto simp: bit_simps dest: bit_imp_le_length)

lemma bit_clear_bits: "bit (clear_bits ns w) n \<longleftrightarrow> bit w n \<and> n \<notin> set ns"
  unfolding clear_bits_def
  by (induction ns arbitrary: w) (auto simp: bit_clear_one simp del: push_bit_of_1)

lemma pending_zero: "pending 0 = []"
  by (simp add: pending_def)

lemma set_pending: "set (pending w) = {n. bit w n}"
  using bit_imp_le_length [of w] by (fastforce simp: pending_def)

lemma sorted_pending: "sorted_wrt (<) (pending w)"
  unfolding pending_def by (rule sorted_wrt_filter) (simp only: sorted_wrt_upt)

lemma upt_split: "k < n \<Longrightarrow> [0..<n] = [0..<k] @ k # [Suc k..<n]"
proof -
  assume a: "k < n"
  have "[0..<n] = [0..<k] @ [k..<n]" using a upt_add_eq_append [of 0 k "n - k"] by simp
  also have "[k..<n] = k # [Suc k..<n]" using a by (rule upt_conv_Cons)
  finally show ?thesis .
qed

lemma filter_upt_lowest:
  assumes "k < n" "P k" "\<forall>m<k. \<not> P m"
  shows "filter P [0..<n] = k # filter (\<lambda>m. P m \<and> m \<noteq> k) [0..<n]"
proof -
  have split: "[0..<n] = [0..<k] @ k # [Suc k..<n]"
    using assms(1) by (rule upt_split)
  have a: "filter P [0..<k] = []" using assms(3) by (simp add: filter_empty_conv)
  have b: "filter (\<lambda>m. P m \<and> m \<noteq> k) [0..<k] = []" using assms(3) by (simp add: filter_empty_conv)
  have c: "filter (\<lambda>m. P m \<and> m \<noteq> k) [Suc k..<n] = filter P [Suc k..<n]"
    by (rule filter_cong) auto
  show ?thesis
    by (subst (1 2) split) (simp only: filter_append filter.simps a b c assms(2) append_Nil if_True if_False simp_thms)
qed

lemma pending_lowest:
  assumes "w \<noteq> 0"
  shows "pending w = TrailingZeros32 w # pending (w AND NOT (push_bit (TrailingZeros32 w) 1))"
proof -
  let ?k = "TrailingZeros32 w"
  have "filter (bit w) [0..<32] = ?k # filter (\<lambda>m. bit w m \<and> m \<noteq> ?k) [0..<32]"
    using assms by (intro filter_upt_lowest) (auto simp: TrailingZeros32_lt TrailingZeros32_bit TrailingZeros32_below)
  moreover have "(\<lambda>m. bit w m \<and> m \<noteq> ?k) = bit (w AND NOT (push_bit ?k 1))"
    by (rule ext) (simp only: bit_clear_one)
  ultimately show ?thesis by (simp only: pending_def)
qed

lemma checkSignals_loop_step:
  "checkSignals_loop st g =
     (if receivedSignals st = 0 then (g, st)
      else if length (chan_buf (signalChan st)) < chan_cap (signalChan st) then
        checkSignals_loop
          (st\<lparr>signalChan := (signalChan st)\<lparr>chan_buf := chan_buf (signalChan st) @
                  [of_nat (TrailingZeros32 (receivedSignals st))]\<rparr>,
              receivedSignals := receivedSignals st AND
                  NOT (push_bit (TrailingZeros32 (receivedSignals st)) 1)\<rparr>) True
      else (g, st))"
  by (subst checkSignals_loop.simps)
     (simp add: LoadUint32_def chan_try_send_def clear_loop_eq Let_def del: push_bit_of_1)

declare checkSignals_loop.simps [simp del]

lemma checkSignals_loop_drained:
  "checkSignals_loop st g =
     (g \<or> drained st \<noteq> [],
      st\<lparr>signalChan := (signalChan st)\<lparr>chan_buf := chan_buf (signalChan st) @
              map of_nat (drained st)\<rparr>,
          receivedSignals := clear_bits (drained st) (receivedSignals st)\<rparr>)"
proof (induction "unat (receivedSignals st)" arbitrary: st g rule: less_induct)
  case less
  let ?w = "receivedSignals st"
  let ?c = "signalChan st"
  show ?case
  proof (cases "?w = 0")
    case True
    then show ?thesis
      by (subst checkSignals_loop_step) (simp add: drained_def pending_zero clear_bits_def)
  next
    case nz: False
    show ?thesis
    proof (cases "length (chan_buf ?c) < chan_cap ?c")
      case False
      then show ?thesis using nz
        by (subst checkSignals_loop_step) (simp add: drained_def clear_bits_def)
    next
      case room: True
      define k where "k = TrailingZeros32 ?w"
      define w' where "w' = ?w AND NOT (push_bit k 1)"
      define c' where "c' = ?c\<lparr>chan_buf := chan_buf ?c @ [of_nat k]\<rparr>"
      define st1 where "st1 = st\<lparr>signalChan := c', receivedSignals := w'\<rparr>"
      have "w' < ?w" unfolding w'_def k_def
        using nz by (intro clear_bit_less TrailingZeros32_bit)
      then have "unat (receivedSignals st1) < unat ?w"
        by (simp add: st1_def word_less_nat_alt)
      then have ih: "checkSignals_loop st1 True =
         (True \<or> drained st1 \<noteq> [],
          st1\<lparr>signalChan := (signalChan st1)\<lparr>chan_buf := chan_buf (signalChan st1) @
              map of_nat (drained st1)\<rparr>,
          receivedSignals := clear_bits (drained st1) (receivedSignals st1)\<rparr>)"
        by (rule less)
      have step: "checkSignals_loop st g = checkSignals_loop st1 True"
        by (subst checkSignals_loop_step)
           (simp only: nz room if_True if_False st1_def c'_def w'_def k_def)
      have pl: "pending ?w = k # pending w'"
        unfolding k_def w'_def by (rule pending_lowest [OF nz])
      have fr: "chan_cap ?c - length (chan_buf ?c) = Suc (chan_cap c' - length (chan_buf c'))"
        using room by (simp add: c'_def)
      have dr: "drained st = k # drained st1"
        by (simp add: drained_def pl fr st1_def)
      have cb: "clear_bits (k # drained st1) ?w = clear_bits (drained st1) w'"
        by (simp only: clear_bits_def fold_simps w'_def)
      show ?thesis
        unfolding step ih dr cb
        by (simp add: st1_def c'_def)
    qed
  qed
qed


lemma checkSignals_drained:
  "checkSignals st =
     (drained st \<noteq> [],
      st\<lparr>signalChan := (signalChan st)\<lparr>chan_buf := chan_buf (signalChan st) @
              map of_nat (drained st)\<rparr>,
          receivedSignals := clear_bits (drained st) (receivedSignals st)\<rparr>)"
  by (simp add: checkSignals_def checkSignals_loop_drained)

lemma drained_full:
  assumes "clear_bits (drained st) (receivedSignals st) \<noteq> 0"
  shows "chan_cap (signalChan st) \<le> length (chan_buf (signalChan st)) + length (drained st)"
proof (rule ccontr)
  assume "\<not> ?thesis"
  then have "length (drained st) < chan_cap (signalChan st) - length (chan_buf (signalChan st))"
    by simp
  then have "drained st = pending (receivedSignals st)"
    by (simp add: drained_def)
  then have "\<forall>n. \<not> bit (clear_bits (drained st) (receivedSignals st)) n"
    by (simp add: bit_clear_bits set_pending)
  then have "clear_bits (drained st) (receivedSignals st) = 0"
    by (simp add: bit_eq_iff)
  with assms show False by simp
qed

text \<open>
  C1. One iteration of \<open>checkSignals\<close> on any value of \<open>receivedSignals\<close>: with no bit
  set it returns; otherwise it takes the lowest set bit (that bit is set and none below it
  is) and tries to send its number; when the channel takes it, exactly that bit is cleared
  and the loop goes on with \<open>gotSignals\<close> true; when the channel is full, it returns with
  the state as it was. The whole call sends \<open>drained st\<close>, the lowest pending numbers in
  rising order, as many as the channel has room for: it returns true exactly when it sent
  something, appends to the channel the numbers it sent, clears exactly their bits, so
  every bit it cleared is a number now in the channel, and leaves bits set only when the
  channel is full.
\<close>

theorem checkSignals_delivers:
  fixes st :: runtime and g :: bool
  defines "w \<equiv> receivedSignals st"
  defines "num \<equiv> TrailingZeros32 (receivedSignals st)"
  defines "st' \<equiv> snd (checkSignals st)"
  shows
    "(w \<noteq> 0 \<longrightarrow> bit w num \<and> (\<forall>m<num. \<not> bit w m)) \<and>
     checkSignals_loop st g =
       (if w = 0 then (g, st)
        else case chan_try_send (signalChan st) (of_nat num) of
               None \<Rightarrow> (g, st)
             | Some c \<Rightarrow>
                 checkSignals_loop
                   (st\<lparr>signalChan := c, receivedSignals := w AND NOT (push_bit num 1)\<rparr>) True) \<and>
     (\<forall>n. bit (w AND NOT (push_bit num 1)) n \<longleftrightarrow> bit w n \<and> n \<noteq> num) \<and>
     fst (checkSignals st) = (drained st \<noteq> []) \<and>
     drained st =
       take (chan_cap (signalChan st) - length (chan_buf (signalChan st))) (pending w) \<and>
     sorted_wrt (<) (pending w) \<and> set (pending w) = {n. bit w n} \<and>
     chan_buf (signalChan st') = chan_buf (signalChan st) @ map of_nat (drained st) \<and>
     (\<forall>n. bit (receivedSignals st') n \<longleftrightarrow> bit w n \<and> n \<notin> set (drained st)) \<and>
     (\<forall>n. bit w n \<and> \<not> bit (receivedSignals st') n \<longrightarrow>
          of_nat n \<in> set (chan_buf (signalChan st'))) \<and>
     (receivedSignals st' \<noteq> 0 \<longrightarrow>
          chan_cap (signalChan st') \<le> length (chan_buf (signalChan st'))) \<and>
     chan_cap (signalChan st') = chan_cap (signalChan st) \<and>
     hasSignals st' = hasSignals st \<and> activeSignals st' = activeSignals st \<and>
     calls st' = calls st"
proof -
  have lowest: "w \<noteq> 0 \<longrightarrow> bit w num \<and> (\<forall>m<num. \<not> bit w m)"
    unfolding w_def num_def by (simp add: TrailingZeros32_bit TrailingZeros32_below)
  have iter: "checkSignals_loop st g =
       (if w = 0 then (g, st)
        else case chan_try_send (signalChan st) (of_nat num) of
               None \<Rightarrow> (g, st)
             | Some c \<Rightarrow>
                 checkSignals_loop
                   (st\<lparr>signalChan := c, receivedSignals := w AND NOT (push_bit num 1)\<rparr>) True)"
    unfolding w_def num_def
    by (subst checkSignals_loop_step) (simp add: chan_try_send_def del: push_bit_of_1)
  have one: "\<forall>n. bit (w AND NOT (push_bit num 1)) n \<longleftrightarrow> bit w n \<and> n \<noteq> num"
    by (simp only: bit_clear_one simp_thms)
  have res: "fst (checkSignals st) = (drained st \<noteq> [])"
    by (simp add: checkSignals_drained)
  have dr: "drained st =
       take (chan_cap (signalChan st) - length (chan_buf (signalChan st))) (pending w) \<and>
     sorted_wrt (<) (pending w) \<and> set (pending w) = {n. bit w n}"
    by (simp add: drained_def w_def sorted_pending set_pending)
  have buf: "chan_buf (signalChan st') = chan_buf (signalChan st) @ map of_nat (drained st)"
    by (simp add: st'_def checkSignals_drained)
  have bits: "\<forall>n. bit (receivedSignals st') n \<longleftrightarrow> bit w n \<and> n \<notin> set (drained st)"
    by (simp add: st'_def w_def checkSignals_drained bit_clear_bits)
  have kept: "\<forall>n. bit w n \<and> \<not> bit (receivedSignals st') n \<longrightarrow>
          of_nat n \<in> set (chan_buf (signalChan st'))"
    using bits by (auto simp: buf)
  have full: "receivedSignals st' \<noteq> 0 \<longrightarrow>
          chan_cap (signalChan st') \<le> length (chan_buf (signalChan st'))"
    using drained_full [of st] by (simp add: st'_def checkSignals_drained)
  have rest: "chan_cap (signalChan st') = chan_cap (signalChan st) \<and>
     hasSignals st' = hasSignals st \<and> activeSignals st' = activeSignals st \<and>
     calls st' = calls st"
    by (simp add: st'_def checkSignals_drained)
  from lowest iter one res dr buf bits kept full rest show ?thesis by blast
qed

text \<open>
  The theorem at a state with signals 1 and 2 pending and the channel of capacity 1 empty:
  1 is sent, its bit is cleared, and 2 stays pending behind the full channel.
\<close>

theorem checkSignals_delivers_witness:
  "fst (checkSignals (init\<lparr>receivedSignals := 6\<rparr>)) \<and>
   chan_buf (signalChan (snd (checkSignals (init\<lparr>receivedSignals := 6\<rparr>)))) = [1] \<and>
   \<not> bit (receivedSignals (snd (checkSignals (init\<lparr>receivedSignals := 6\<rparr>)))) 1 \<and>
   bit (receivedSignals (snd (checkSignals (init\<lparr>receivedSignals := 6\<rparr>)))) 2"
proof -
  let ?s = "init\<lparr>receivedSignals := 6\<rparr>"
  have d: "drained ?s = [1]"
    by code_simp
  have b: "chan_buf (signalChan ?s) = []" "receivedSignals ?s = 6"
    by (simp_all add: init_def make_chan_def)
  have c: "bit (6 :: uint32) 2"
    by simp
  from checkSignals_delivers [of ?s False] show ?thesis
    unfolding d b using c by simp
qed

section \<open>Coalescing\<close>

lemma drained_nil_checkSignals: "drained st = [] \<Longrightarrow> checkSignals st = (False, st)"
  by (simp add: checkSignals_drained clear_bits_def)

lemma checkSignals_none: "receivedSignals st = 0 \<Longrightarrow> checkSignals st = (False, st)"
  by (rule drained_nil_checkSignals) (simp add: drained_def pending_zero)

lemma TrailingZeros32_single: "k < 32 \<Longrightarrow> TrailingZeros32 (push_bit k 1) = k"
proof -
  assume k: "k < 32"
  have nz: "push_bit k (1 :: uint32) \<noteq> 0"
  proof
    assume "push_bit k (1 :: uint32) = 0"
    then have "bit (push_bit k (1 :: uint32)) k = bit (0 :: uint32) k" by (rule arg_cong)
    then show False using k by (simp add: bit_simps)
  qed
  from TrailingZeros32_bit [OF nz] show ?thesis
    by (auto simp: bit_simps simp del: push_bit_of_1)
qed

lemma pending_single: "k < 32 \<Longrightarrow> pending (push_bit k 1) = [k]"
proof -
  assume k: "k < 32"
  have nz: "push_bit k (1 :: uint32) \<noteq> 0"
  proof
    assume "push_bit k (1 :: uint32) = 0"
    then have "bit (push_bit k (1 :: uint32)) k = bit (0 :: uint32) k" by (rule arg_cong)
    then show False using k by (simp add: bit_simps)
  qed
  have z: "push_bit k (1 :: uint32) AND NOT (push_bit k 1) = 0"
    by simp
  show ?thesis
    by (subst pending_lowest [OF nz])
       (simp only: TrailingZeros32_single [OF k] z pending_zero)
qed

text \<open>
  C4. Running the handler twice for the same signal number leaves the state as running it
  once. When the number is below 32, nothing else is pending and the channel is empty with
  room, the drain after the two runs reports a delivery, the channel holds the one entry
  \<open>s\<close> and nothing is pending; \<open>signal_recv\<close> then returns \<open>s\<close>, and a drain after it
  reports nothing and changes nothing.
\<close>

theorem handler_coalesces:
  fixes st :: runtime and s :: int32
  defines "once \<equiv> tinygo_signal_handler st s"
  defines "twice \<equiv> tinygo_signal_handler (tinygo_signal_handler st s) s"
  defines "st3 \<equiv> snd (checkSignals (tinygo_signal_handler (tinygo_signal_handler st s) s))"
  shows
    "twice = once \<and>
     (unat s < 32 \<and> receivedSignals st = 0 \<and> chan_buf (signalChan st) = [] \<and>
      0 < chan_cap (signalChan st) \<longrightarrow>
        fst (checkSignals twice) \<and>
        chan_buf (signalChan st3) = [s] \<and>
        receivedSignals st3 = 0 \<and>
        (\<exists>st4. signal_recv st3 = Some (s, st4) \<and>
               chan_buf (signalChan st4) = [] \<and> receivedSignals st4 = 0 \<and>
               checkSignals st4 = (False, st4)))"
proof -
  have idem: "twice = once"
    by (simp add: twice_def once_def tinygo_signal_handler_eq)
  have scen: "fst (checkSignals twice) \<and>
        chan_buf (signalChan st3) = [s] \<and>
        receivedSignals st3 = 0 \<and>
        (\<exists>st4. signal_recv st3 = Some (s, st4) \<and>
               chan_buf (signalChan st4) = [] \<and> receivedSignals st4 = 0 \<and>
               checkSignals st4 = (False, st4))"
    if a: "unat s < 32" "receivedSignals st = 0" "chan_buf (signalChan st) = []"
          "0 < chan_cap (signalChan st)"
  proof -
    have tw: "twice = st\<lparr>receivedSignals := push_bit (unat s) 1\<rparr>"
      by (simp add: twice_def tinygo_signal_handler_eq a del: push_bit_of_1)
    have "chan_cap (signalChan st) = Suc (chan_cap (signalChan st) - 1)"
      using a(4) by simp
    then have dr: "drained twice = [unat s]"
      unfolding tw drained_def
      by (simp add: pending_single [OF a(1)] a(3) del: push_bit_of_1)
    have cb: "clear_bits [unat s] (push_bit (unat s) 1) = 0"
      by (simp add: clear_bits_def)
    have st3: "st3 = st\<lparr>signalChan := (signalChan st)\<lparr>chan_buf := [s]\<rparr>, receivedSignals := 0\<rparr>"
      unfolding st3_def twice_def [symmetric]
      unfolding checkSignals_drained dr
      by (simp add: tw cb a(3) del: push_bit_of_1)
    let ?st4 = "st\<lparr>signalChan := (signalChan st)\<lparr>chan_buf := []\<rparr>, receivedSignals := 0\<rparr>"
    have d4: "drained ?st4 = []"
      by (simp add: drained_def pending_zero)
    have c4: "checkSignals ?st4 = (False, ?st4)"
      using d4 by (rule drained_nil_checkSignals)
    have rv: "signal_recv st3 = Some (s, ?st4)"
      by (simp add: signal_recv_def chan_recv_def st3 checkSignals_none)
    have "fst (checkSignals twice)"
      by (simp add: checkSignals_drained dr)
    then show ?thesis using st3 rv c4 by simp
  qed
  from idem scen show ?thesis by blast
qed

text \<open>The theorem at signal 15, from the initial state.\<close>

theorem handler_coalesces_witness:
  "chan_buf (signalChan (snd (checkSignals
      (tinygo_signal_handler (tinygo_signal_handler init 15) 15)))) = [15]"
proof -
  have "unat (15 :: int32) < 32 \<and> receivedSignals init = 0 \<and> chan_buf (signalChan init) = [] \<and>
      0 < chan_cap (signalChan init)"
    by (simp add: init_def make_chan_def)
  with handler_coalesces [of init 15] show ?thesis by blast
qed

section \<open>Registering a signal number\<close>

lemma bit_set_one: "k < 32 \<Longrightarrow> bit ((w :: uint32) OR push_bit k 1) n \<longleftrightarrow> bit w n \<or> n = k"
  by (auto simp: bit_simps)

lemma signal_enable_ok:
  "s < 32 \<Longrightarrow> signal_enable st s =
     Inr (st\<lparr>hasSignals := True,
             activeSignals := activeSignals st OR push_bit (unat s) 1,
             calls := calls st @ [Tinygo_signal_enable s]\<rparr>)"
  by (simp add: signal_enable_def extern_def del: push_bit_of_1)

lemma signal_ignore_ok:
  "s < 32 \<Longrightarrow> signal_ignore st s =
     Inr (st\<lparr>activeSignals := activeSignals st AND NOT (push_bit (unat s) 1),
             calls := calls st @ [Tinygo_signal_ignore s]\<rparr>)"
  by (simp add: signal_ignore_def extern_def del: push_bit_of_1)

lemma signal_disable_ok:
  "s < 32 \<Longrightarrow> signal_disable st s =
     Inr (st\<lparr>activeSignals := activeSignals st AND NOT (push_bit (unat s) 1),
             calls := calls st @ [Tinygo_signal_disable s]\<rparr>)"
  by (simp add: signal_disable_def extern_def del: push_bit_of_1)

lemma unat_signal_lt: "(s :: uint32) < 32 \<Longrightarrow> unat s < 32"
  by (simp add: word_less_nat_alt)

text \<open>
  C6. \<open>signal_enable\<close>, \<open>signal_ignore\<close> and \<open>signal_disable\<close> each halt with
  ``unsupported signal number'' exactly when \<open>s\<close> is 32 or more. Below 32, \<open>signal_enable\<close>
  sets bit \<open>s\<close> of \<open>activeSignals\<close> and no other, sets \<open>hasSignals\<close> and calls
  \<open>tinygo_signal_enable(s)\<close>; so it does for 31.
\<close>

theorem signal_number_limit:
  fixes st :: runtime and s :: uint32
  shows
    "((\<exists>p. signal_enable st s = Inl p) \<longleftrightarrow> 32 \<le> s) \<and>
     ((\<exists>p. signal_ignore st s = Inl p) \<longleftrightarrow> 32 \<le> s) \<and>
     ((\<exists>p. signal_disable st s = Inl p) \<longleftrightarrow> 32 \<le> s) \<and>
     (32 \<le> s \<longrightarrow>
        signal_enable st s = Inl (RuntimePanic ''unsupported signal number'') \<and>
        signal_ignore st s = Inl (RuntimePanic ''unsupported signal number'') \<and>
        signal_disable st s = Inl (RuntimePanic ''unsupported signal number'')) \<and>
     (s < 32 \<longrightarrow>
        (\<exists>st'. signal_enable st s = Inr st' \<and>
           (\<forall>n. bit (activeSignals st') n \<longleftrightarrow> bit (activeSignals st) n \<or> n = unat s) \<and>
           hasSignals st' \<and>
           calls st' = calls st @ [Tinygo_signal_enable s] \<and>
           receivedSignals st' = receivedSignals st \<and> signalChan st' = signalChan st)) \<and>
     (\<exists>st'. signal_enable st 31 = Inr st' \<and>
        bit (activeSignals st') 31 \<and>
        calls st' = calls st @ [Tinygo_signal_enable 31])"
proof -
  have fatal: "(\<exists>p. signal_enable st s = Inl p) \<longleftrightarrow> 32 \<le> s"
    "(\<exists>p. signal_ignore st s = Inl p) \<longleftrightarrow> 32 \<le> s"
    "(\<exists>p. signal_disable st s = Inl p) \<longleftrightarrow> 32 \<le> s"
    by (simp_all add: signal_enable_def signal_ignore_def signal_disable_def)
  have msg: "32 \<le> s \<longrightarrow>
        signal_enable st s = Inl (RuntimePanic ''unsupported signal number'') \<and>
        signal_ignore st s = Inl (RuntimePanic ''unsupported signal number'') \<and>
        signal_disable st s = Inl (RuntimePanic ''unsupported signal number'')"
    by (simp add: signal_enable_def signal_ignore_def signal_disable_def)
  have ok: "\<exists>st'. signal_enable st t = Inr st' \<and>
           (\<forall>n. bit (activeSignals st') n \<longleftrightarrow> bit (activeSignals st) n \<or> n = unat t) \<and>
           hasSignals st' \<and>
           calls st' = calls st @ [Tinygo_signal_enable t] \<and>
           receivedSignals st' = receivedSignals st \<and> signalChan st' = signalChan st"
    if "t < 32" for t :: uint32
    by (simp add: signal_enable_ok [OF that] bit_set_one [OF unat_signal_lt [OF that]]
          del: push_bit_of_1)
  have "(31 :: uint32) < 32" by simp
  from ok [OF this] have last: "\<exists>st'. signal_enable st 31 = Inr st' \<and>
        bit (activeSignals st') 31 \<and>
        calls st' = calls st @ [Tinygo_signal_enable 31]"
    by auto
  from fatal msg ok [of s] last show ?thesis by blast
qed

text \<open>The theorem at 32, which halts, and at 30, which is registered.\<close>

theorem signal_number_limit_witness:
  "signal_enable init 32 = Inl (RuntimePanic ''unsupported signal number'') \<and>
   signal_ignore init 32 = Inl (RuntimePanic ''unsupported signal number'') \<and>
   signal_disable init 32 = Inl (RuntimePanic ''unsupported signal number'') \<and>
   (\<exists>st'. signal_enable init 30 = Inr st' \<and> calls st' = [Tinygo_signal_enable 30])"
proof -
  have a: "(32 :: uint32) \<le> 32" "(30 :: uint32) < 32" "calls init = []"
    by (simp_all add: init_def)
  from signal_number_limit [of init 32] a(1) have
    "signal_enable init 32 = Inl (RuntimePanic ''unsupported signal number'') \<and>
     signal_ignore init 32 = Inl (RuntimePanic ''unsupported signal number'') \<and>
     signal_disable init 32 = Inl (RuntimePanic ''unsupported signal number'')"
    by blast
  moreover from signal_number_limit [of init 30] a(2) have
    "\<exists>st'. signal_enable init 30 = Inr st' \<and> calls st' = calls init @ [Tinygo_signal_enable 30]"
    by blast
  ultimately show ?thesis by (simp add: a(3))
qed

section \<open>Waiting for events\<close>

lemma pending_nil_iff: "pending w = [] \<longleftrightarrow> w = 0"
proof
  assume "pending w = []"
  then have "set (pending w) = {}" by simp
  then have "\<forall>n. \<not> bit w n" by (simp add: set_pending)
  then show "w = 0" by (simp add: bit_eq_iff)
qed (simp add: pending_zero)

lemma drained_nil_iff:
  "drained st = [] \<longleftrightarrow>
     receivedSignals st = 0 \<or> chan_cap (signalChan st) \<le> length (chan_buf (signalChan st))"
  by (auto simp: drained_def pending_nil_iff)

lemma fst_checkSignals:
  "fst (checkSignals st) \<longleftrightarrow>
     receivedSignals st \<noteq> 0 \<and> length (chan_buf (signalChan st)) < chan_cap (signalChan st)"
  by (auto simp: checkSignals_drained drained_nil_iff)

lemma checkSignals_fields:
  "hasSignals (snd (checkSignals st)) = hasSignals st"
  "activeSignals (snd (checkSignals st)) = activeSignals st"
  "calls (snd (checkSignals st)) = calls st"
  "chan_cap (signalChan (snd (checkSignals st))) = chan_cap (signalChan st)"
  by (simp_all add: checkSignals_drained)

lemma handler_fields:
  "hasSignals (tinygo_signal_handler st s) = hasSignals st"
  "activeSignals (tinygo_signal_handler st s) = activeSignals st"
  "calls (tinygo_signal_handler st s) = calls st"
  "signalChan (tinygo_signal_handler st s) = signalChan st"
  by (simp_all add: tinygo_signal_handler_eq)

lemma extern_fields:
  "hasSignals (extern c st) = hasSignals st"
  "activeSignals (extern c st) = activeSignals st"
  "calls (extern c st) = calls st @ [c]"
  "signalChan (extern c st) = signalChan st"
  "receivedSignals (extern c st) = receivedSignals st"
  by (simp_all add: extern_def)

lemma drained_calls_upd: "drained (st\<lparr>calls := cs\<rparr>) = drained st"
  by (simp add: drained_def)

lemma checkSignals_calls_upd:
  "checkSignals (st\<lparr>calls := cs\<rparr>) =
     (fst (checkSignals st), (snd (checkSignals st))\<lparr>calls := cs\<rparr>)"
  by (simp add: checkSignals_drained drained_calls_upd)

lemma handler_calls_upd:
  "tinygo_signal_handler (st\<lparr>calls := cs\<rparr>) s = (tinygo_signal_handler st s)\<lparr>calls := cs\<rparr>"
  by (simp add: tinygo_signal_handler_eq)

lemma checkSignals_same: "\<not> fst (checkSignals st) \<Longrightarrow> snd (checkSignals st) = st"
  by (simp add: checkSignals_drained clear_bits_def)

lemma waitForEvents_eq:
  "waitForEvents k st =
     (if \<not> hasSignals st then Inl (RuntimePanic ''deadlocked: no event source'')
      else if receivedSignals st \<noteq> 0 \<and>
              length (chan_buf (signalChan st)) < chan_cap (signalChan st)
      then Inr ((snd (checkSignals st))
             \<lparr>calls := calls st @ [Tinygo_wfi_mask (activeSignals st), Tinygo_wfi_unmask]\<rparr>)
      else Inr ((snd (checkSignals
                   (tinygo_signal_handler st (tinygo_wfi_wait k (activeSignals st)))))
             \<lparr>calls := calls st @ [Tinygo_wfi_mask (activeSignals st),
                  Tinygo_wfi_wait (activeSignals st), Tinygo_wfi_unmask]\<rparr>))"
proof (cases "hasSignals st")
  case False
  then show ?thesis by (simp add: waitForEvents_def)
next
  case hs: True
  show ?thesis
  proof (cases "fst (checkSignals st)")
    case True
    then show ?thesis using hs
      by (simp add: waitForEvents_def Let_def extern_def checkSignals_calls_upd
            fst_checkSignals [symmetric] checkSignals_fields)
  next
    case False
    then show ?thesis using hs
      by (simp add: waitForEvents_def Let_def extern_def checkSignals_calls_upd
            handler_calls_upd fst_checkSignals [symmetric] checkSignals_same
            checkSignals_fields handler_fields)
  qed
qed


text \<open>
  C5, as amended. \<open>waitForEvents\<close> halts with ``deadlocked: no event source'', making no
  external call, whenever \<open>hasSignals\<close> is false. With \<open>hasSignals\<close> it masks the active
  set; if the drain hands a pending signal to the channel (one is pending and the channel
  has room) it unmasks and returns; otherwise (nothing pending, or the channel full) it
  calls \<open>tinygo_wfi_wait\<close>, runs the handler on the signal that call returns, drains, and
  unmasks.
\<close>

theorem waitForEvents_masked_wait:
  fixes k :: kernel and st :: runtime
  defines "a \<equiv> activeSignals st"
  shows
    "(\<not> hasSignals st \<longrightarrow>
        waitForEvents k st = Inl (RuntimePanic ''deadlocked: no event source'')) \<and>
     (hasSignals st \<and> receivedSignals st \<noteq> 0 \<and>
      length (chan_buf (signalChan st)) < chan_cap (signalChan st) \<longrightarrow>
        waitForEvents k st =
          Inr ((snd (checkSignals st))\<lparr>calls := calls st @
                 [Tinygo_wfi_mask a, Tinygo_wfi_unmask]\<rparr>)) \<and>
     (hasSignals st \<and> \<not> (receivedSignals st \<noteq> 0 \<and>
      length (chan_buf (signalChan st)) < chan_cap (signalChan st)) \<longrightarrow>
        waitForEvents k st =
          Inr ((snd (checkSignals (tinygo_signal_handler st (tinygo_wfi_wait k a))))
                 \<lparr>calls := calls st @
                 [Tinygo_wfi_mask a, Tinygo_wfi_wait a, Tinygo_wfi_unmask]\<rparr>))"
  unfolding a_def by (simp add: waitForEvents_eq)

text \<open>
  The theorem at the initial state (no interest: it halts) and at a state with interest
  in signal 2 and nothing pending: it waits, is woken by 2, and delivers it.
\<close>

theorem waitForEvents_masked_wait_witness:
  "waitForEvents kernel0 init = Inl (RuntimePanic ''deadlocked: no event source'') \<and>
   waitForEvents kernel0 (init\<lparr>hasSignals := True, activeSignals := 4\<rparr>) =
     Inr (init\<lparr>hasSignals := True, activeSignals := 4,
              signalChan := \<lparr>chan_buf = [2], chan_cap = 1\<rparr>,
              calls := [Tinygo_wfi_mask 4, Tinygo_wfi_wait 4, Tinygo_wfi_unmask]\<rparr>)"
proof -
  let ?s = "init\<lparr>hasSignals := True, activeSignals := 4\<rparr>"
  have h: "\<not> hasSignals init" "hasSignals ?s" "receivedSignals ?s = 0"
    by (simp_all add: init_def)
  have w: "tinygo_wfi_wait kernel0 (activeSignals ?s) = 2"
    by (simp add: kernel0_def)
  have d: "drained (tinygo_signal_handler ?s 2) = [2]"
    by (simp add: tinygo_signal_handler_eq) code_simp
  have c: "clear_bits [2] (receivedSignals (tinygo_signal_handler ?s 2)) = 0"
    by (simp add: tinygo_signal_handler_eq clear_bits_def init_def)
  have r: "snd (checkSignals (tinygo_signal_handler ?s 2)) =
      init\<lparr>hasSignals := True, activeSignals := 4,
           signalChan := \<lparr>chan_buf = [2], chan_cap = 1\<rparr>\<rparr>"
    unfolding checkSignals_drained d c
    by (simp add: tinygo_signal_handler_eq init_def make_chan_def)
  from waitForEvents_masked_wait [of init kernel0] h(1)
  have 1: "waitForEvents kernel0 init = Inl (RuntimePanic ''deadlocked: no event source'')"
    by blast
  from waitForEvents_masked_wait [of ?s kernel0] h(2,3)
  have "waitForEvents kernel0 ?s =
          Inr ((snd (checkSignals (tinygo_signal_handler ?s
                  (tinygo_wfi_wait kernel0 (activeSignals ?s)))))
                 \<lparr>calls := calls ?s @
                 [Tinygo_wfi_mask (activeSignals ?s), Tinygo_wfi_wait (activeSignals ?s),
                  Tinygo_wfi_unmask]\<rparr>)"
    by blast
  then have 2: "waitForEvents kernel0 ?s =
     Inr (init\<lparr>hasSignals := True, activeSignals := 4,
              signalChan := \<lparr>chan_buf = [2], chan_cap = 1\<rparr>,
              calls := [Tinygo_wfi_mask 4, Tinygo_wfi_wait 4, Tinygo_wfi_unmask]\<rparr>)"
    unfolding w r by (simp add: init_def)
  from 1 2 show ?thesis by blast
qed

lemma pending_behind_full_reached:
  "run_ops linux32 init [Enable 2, Enable 3, Handler 2, Handler 3, CheckSignals] = Some pending_behind_full"
proof -
  define s1 where "s1 = \<lparr>signalChan = \<lparr>chan_buf = [], chan_cap = 1\<rparr>, hasSignals = True,
      receivedSignals = 0, activeSignals = 4, calls = [Tinygo_signal_enable 2]\<rparr>"
  define s2 where "s2 = \<lparr>signalChan = \<lparr>chan_buf = [], chan_cap = 1\<rparr>, hasSignals = True,
      receivedSignals = 0, activeSignals = 12,
      calls = [Tinygo_signal_enable 2, Tinygo_signal_enable 3]\<rparr>"
  define s3 where "s3 = \<lparr>signalChan = \<lparr>chan_buf = [], chan_cap = 1\<rparr>, hasSignals = True,
      receivedSignals = 4, activeSignals = 12,
      calls = [Tinygo_signal_enable 2, Tinygo_signal_enable 3]\<rparr>"
  define s4 where "s4 = \<lparr>signalChan = \<lparr>chan_buf = [], chan_cap = 1\<rparr>, hasSignals = True,
      receivedSignals = 12, activeSignals = 12,
      calls = [Tinygo_signal_enable 2, Tinygo_signal_enable 3]\<rparr>"
  have 1: "signal_enable init 2 = Inr s1"
    by (simp add: signal_enable_def extern_def init_def make_chan_def s1_def)
  have 2: "signal_enable s1 3 = Inr s2"
    by (simp add: signal_enable_def extern_def s1_def s2_def)
  have 3: "tinygo_signal_handler s2 2 = s3"
    by (simp add: tinygo_signal_handler_eq s2_def s3_def)
  have 4: "tinygo_signal_handler s3 3 = s4"
    by (simp add: tinygo_signal_handler_eq s3_def s4_def)
  have d: "drained s4 = [2]"
    unfolding s4_def by code_simp
  have cb: "clear_bits [2] (12 :: uint32) = 8"
    by (simp add: clear_bits_def)
  have 5: "snd (checkSignals s4) = pending_behind_full"
    unfolding checkSignals_drained d by (simp add: s4_def cb pending_behind_full_def)
  show ?thesis
    by (simp add: 1 2 3 4 5)
qed

text \<open>
  C5 as stated fails. The state \<open>pending_behind_full\<close> is reached from the start by the
  operations of the file; in it signal 3 is pending and the channel is full, so the drain
  hands nothing over, and \<open>waitForEvents\<close> does not return after unmasking: it goes on to
  \<open>tinygo_wfi_wait\<close>, which here wakes with signal 2.
\<close>

theorem waitForEvents_blocks_counterexample:
  "run_ops linux32 init [Enable 2, Enable 3, Handler 2, Handler 3, CheckSignals] =
     Some pending_behind_full \<and>
   hasSignals pending_behind_full \<and> bit (receivedSignals pending_behind_full) 3 \<and>
   waitForEvents kernel0 pending_behind_full =
     Inr (pending_behind_full
            \<lparr>receivedSignals := 12,
             calls := calls pending_behind_full @
               [Tinygo_wfi_mask 12, Tinygo_wfi_wait 12, Tinygo_wfi_unmask]\<rparr>) \<and>
   waitForEvents kernel0 pending_behind_full \<noteq>
     Inr ((snd (checkSignals pending_behind_full))
            \<lparr>calls := calls pending_behind_full @
               [Tinygo_wfi_mask 12, Tinygo_wfi_unmask]\<rparr>)"
proof -
  let ?s = pending_behind_full
  let ?t = "pending_behind_full\<lparr>receivedSignals := 12\<rparr>"
  have f: "hasSignals ?s" "activeSignals ?s = 12"
      "\<not> length (chan_buf (signalChan ?s)) < chan_cap (signalChan ?s)"
      "bit (receivedSignals ?s) 3"
    by (simp_all add: pending_behind_full_def)
  have w: "tinygo_wfi_wait kernel0 12 = 2"
    by (simp add: kernel0_def)
  have h: "tinygo_signal_handler ?s 2 = ?t"
    by (simp add: tinygo_signal_handler_eq pending_behind_full_def)
  have "drained ?t = []"
    by (simp add: drained_nil_iff pending_behind_full_def)
  then have c: "checkSignals ?t = (False, ?t)"
    by (rule drained_nil_checkSignals)
  have e: "waitForEvents kernel0 ?s =
     Inr (?s\<lparr>receivedSignals := 12,
            calls := calls ?s @
              [Tinygo_wfi_mask 12, Tinygo_wfi_wait 12, Tinygo_wfi_unmask]\<rparr>)"
    by (simp add: waitForEvents_eq f w h c)
  have "calls (?s\<lparr>receivedSignals := 12,
            calls := calls ?s @
              [Tinygo_wfi_mask 12, Tinygo_wfi_wait 12, Tinygo_wfi_unmask]\<rparr>)
      \<noteq> calls ((snd (checkSignals ?s))\<lparr>calls := calls ?s @
            [Tinygo_wfi_mask 12, Tinygo_wfi_unmask]\<rparr>)"
    by simp
  then have "?s\<lparr>receivedSignals := 12,
            calls := calls ?s @
              [Tinygo_wfi_mask 12, Tinygo_wfi_wait 12, Tinygo_wfi_unmask]\<rparr>
      \<noteq> (snd (checkSignals ?s))\<lparr>calls := calls ?s @
            [Tinygo_wfi_mask 12, Tinygo_wfi_unmask]\<rparr>"
    by (rule contrapos_nn) (rule arg_cong)
  with pending_behind_full_reached e f show ?thesis by simp
qed


section \<open>Sleeping on darwin\<close>

lemma fold_handler_fields:
  "hasSignals (fold (\<lambda>s st'. tinygo_signal_handler st' s) ss st) = hasSignals st"
  "activeSignals (fold (\<lambda>s st'. tinygo_signal_handler st' s) ss st) = activeSignals st"
  "calls (fold (\<lambda>s st'. tinygo_signal_handler st' s) ss st) = calls st"
  "signalChan (fold (\<lambda>s st'. tinygo_signal_handler st' s) ss st) = signalChan st"
  by (induction ss arbitrary: st; simp add: handler_fields)+

lemma call_usleep_fields:
  "fst (call_usleep k st usec) = usleep k usec"
  "hasSignals (snd (call_usleep k st usec)) = hasSignals st"
  "activeSignals (snd (call_usleep k st usec)) = activeSignals st"
  "calls (snd (call_usleep k st usec)) = calls st @ [Usleep usec]"
  "signalChan (snd (call_usleep k st usec)) = signalChan st"
  by (simp_all add: call_usleep_def fold_handler_fields extern_fields)

lemma sleepTicks_darwin_eq:
  assumes "GOOS tg = ''darwin''" "hasSignals st"
  shows "sleepTicks tg k st d =
     (if receivedSignals st \<noteq> 0 \<and>
         length (chan_buf (signalChan st)) < chan_cap (signalChan st)
      then snd (checkSignals st)
      else if usleep k (uint_of tg d div 1000) \<noteq> 0
      then snd (checkSignals (snd (call_usleep k st (uint_of tg d div 1000))))
      else snd (call_usleep k st (uint_of tg d div 1000)))"
proof (cases "fst (checkSignals st)")
  case True
  then show ?thesis using assms
    by (simp add: sleepTicks_def Let_def fst_checkSignals [symmetric])
next
  case False
  then show ?thesis using assms
    by (simp add: sleepTicks_def Let_def fst_checkSignals [symmetric] checkSignals_same
          call_usleep_fields)
qed

text \<open>
  C7, as amended. On darwin with \<open>hasSignals\<close>, \<open>sleepTicks\<close> drains first and returns
  at once, without a call of \<open>usleep\<close>, when the drain handed a pending signal to the
  channel. Otherwise it calls \<open>usleep\<close> with the duration in microseconds, and drains
  again only when \<open>usleep\<close> returned a value other than 0; when \<open>usleep\<close> returned 0 the
  state is the one the sleep left.
\<close>

theorem sleepTicks_darwin:
  fixes tg :: target and k :: kernel and st :: runtime and d :: int64
  defines "usec \<equiv> uint_of tg d div 1000"
  defines "slept \<equiv> snd (call_usleep k st (uint_of tg d div 1000))"
  assumes "GOOS tg = ''darwin''" and "hasSignals st"
  shows
    "(fst (checkSignals st) \<longleftrightarrow>
        receivedSignals st \<noteq> 0 \<and>
        length (chan_buf (signalChan st)) < chan_cap (signalChan st)) \<and>
     (fst (checkSignals st) \<longrightarrow>
        sleepTicks tg k st d = snd (checkSignals st) \<and>
        calls (sleepTicks tg k st d) = calls st) \<and>
     (\<not> fst (checkSignals st) \<longrightarrow>
        calls (sleepTicks tg k st d) = calls st @ [Usleep usec] \<and>
        (usleep k usec \<noteq> 0 \<longrightarrow> sleepTicks tg k st d = snd (checkSignals slept)) \<and>
        (usleep k usec = 0 \<longrightarrow> sleepTicks tg k st d = slept))"
  using assms(3,4) unfolding usec_def slept_def
  by (simp add: sleepTicks_darwin_eq fst_checkSignals checkSignals_fields call_usleep_fields)

lemma uint_of_million: "uint_of darwin64 1000000 div 1000 = 1000"
  by (simp add: uint_of_def darwin64_def)

lemma interested_reached: "signal_enable init 2 = Inr interested"
  by (simp add: signal_enable_def extern_def interested_def init_def)

lemma late_signal_sleep:
  "call_usleep late_signal interested 1000 =
     (0, interested\<lparr>receivedSignals := 4,
            calls := [Tinygo_signal_enable 2, Usleep 1000]\<rparr>)"
  by (simp add: call_usleep_def late_signal_def kernel0_def interested_def init_def
        extern_def tinygo_signal_handler_eq)

text \<open>The theorem at a sleep of one millisecond that returns 0.\<close>

theorem sleepTicks_darwin_witness:
  "sleepTicks darwin64 late_signal interested 1000000 =
     interested\<lparr>receivedSignals := 4,
       calls := [Tinygo_signal_enable 2, Usleep 1000]\<rparr>"
proof -
  have a: "GOOS darwin64 = ''darwin''" "hasSignals interested"
    by (simp_all add: darwin64_def interested_def)
  have n: "\<not> fst (checkSignals interested)"
    by (simp add: fst_checkSignals interested_def init_def)
  have u: "usleep late_signal 1000 = 0"
    by (simp add: late_signal_def kernel0_def)
  from sleepTicks_darwin [OF a, of late_signal 1000000] n u show ?thesis
    by (simp add: uint_of_million late_signal_sleep)
qed

text \<open>
  C7 as stated fails. After \<open>signal_enable(2)\<close>, on darwin: \<open>usleep\<close> returns 0 (the
  sleep ran its time), signal 2 has reached the handler meanwhile, and \<open>sleepTicks\<close>
  returns without the second drain: the signal is still pending and the channel still
  empty, where a drain would have delivered it.
\<close>

theorem sleepTicks_darwin_counterexample:
  "signal_enable init 2 = Inr interested \<and>
   GOOS darwin64 = ''darwin'' \<and> hasSignals interested \<and>
   \<not> fst (checkSignals interested) \<and>
   fst (call_usleep late_signal interested 1000) = 0 \<and>
   sleepTicks darwin64 late_signal interested 1000000 =
     snd (call_usleep late_signal interested 1000) \<and>
   sleepTicks darwin64 late_signal interested 1000000 \<noteq>
     snd (checkSignals (snd (call_usleep late_signal interested 1000))) \<and>
   bit (receivedSignals (sleepTicks darwin64 late_signal interested 1000000)) 2 \<and>
   chan_buf (signalChan (sleepTicks darwin64 late_signal interested 1000000)) = []"
proof -
  let ?r = "interested\<lparr>receivedSignals := 4,
      calls := [Tinygo_signal_enable 2, Usleep 1000]\<rparr>"
  have a: "GOOS darwin64 = ''darwin''" "hasSignals interested"
    by (simp_all add: darwin64_def interested_def)
  have n: "\<not> fst (checkSignals interested)"
    by (simp add: fst_checkSignals interested_def init_def)
  have u: "usleep late_signal 1000 = 0"
    by (simp add: late_signal_def kernel0_def)
  have e: "sleepTicks darwin64 late_signal interested 1000000 = ?r"
    using n u
    by (simp add: sleepTicks_darwin_eq [OF a] fst_checkSignals [symmetric] uint_of_million
          late_signal_sleep)
  have "fst (checkSignals ?r)"
    by (simp add: fst_checkSignals interested_def init_def make_chan_def)
  then have "chan_buf (signalChan (snd (checkSignals ?r))) \<noteq> chan_buf (signalChan ?r)"
    by (simp add: checkSignals_drained)
  then have ne: "?r \<noteq> snd (checkSignals ?r)"
    by auto
  have b: "bit (receivedSignals ?r) 2" "chan_buf (signalChan ?r) = []"
    by (simp_all add: interested_def init_def make_chan_def)
  show ?thesis
    unfolding e late_signal_sleep using interested_reached a n ne b by simp
qed


section \<open>The flag \<open>hasSignals\<close>\<close>

lemma sleepTicks_other_eq:
  assumes "GOOS tg \<noteq> ''darwin''" "hasSignals st"
  shows "sleepTicks tg k st d =
     (if receivedSignals st \<noteq> 0 \<and>
         length (chan_buf (signalChan st)) < chan_cap (signalChan st)
      then (snd (checkSignals st))\<lparr>calls := calls st @
             [Tinygo_wfi_mask (activeSignals st), Tinygo_wfi_unmask]\<rparr>
      else if 0 \<le> sint (tinygo_wfi_sleep k (activeSignals st) d)
      then (snd (checkSignals
                  (tinygo_signal_handler st (tinygo_wfi_sleep k (activeSignals st) d))))
             \<lparr>calls := calls st @ [Tinygo_wfi_mask (activeSignals st),
                  Tinygo_wfi_sleep (activeSignals st) d, Tinygo_wfi_unmask]\<rparr>
      else st\<lparr>calls := calls st @ [Tinygo_wfi_mask (activeSignals st),
                  Tinygo_wfi_sleep (activeSignals st) d, Tinygo_wfi_unmask]\<rparr>)"
proof (cases "fst (checkSignals st)")
  case True
  then show ?thesis using assms
    by (simp add: sleepTicks_def Let_def extern_def checkSignals_calls_upd
          fst_checkSignals [symmetric] checkSignals_fields)
next
  case False
  then show ?thesis using assms
    by (simp add: sleepTicks_def Let_def extern_def checkSignals_calls_upd
          handler_calls_upd fst_checkSignals [symmetric] checkSignals_same
          checkSignals_fields handler_fields)
qed

lemma sleepTicks_hasSignals: "hasSignals (sleepTicks tg k st d) = hasSignals st"
proof (cases "hasSignals st")
  case False
  then show ?thesis by (simp add: sleepTicks_def call_usleep_fields)
next
  case True
  then show ?thesis
    by (cases "GOOS tg = ''darwin''")
       (simp_all add: sleepTicks_darwin_eq sleepTicks_other_eq checkSignals_fields
          call_usleep_fields handler_fields)
qed

lemma waitForEvents_hasSignals: "waitForEvents k st = Inr st' \<Longrightarrow> hasSignals st'"
  by (auto simp: waitForEvents_eq checkSignals_fields handler_fields split: if_splits)

lemma signal_recv_hasSignals:
  "signal_recv st = Some r \<Longrightarrow> hasSignals (snd r) = hasSignals st"
  by (auto simp: signal_recv_def checkSignals_fields split: option.splits)

lemma apply_op_hasSignals:
  "hasSignals st \<Longrightarrow> apply_op tg st x = Some st' \<Longrightarrow> hasSignals st'"
  by (cases x)
     (auto simp: signal_enable_def signal_ignore_def signal_disable_def extern_def
        handler_fields checkSignals_fields sleepTicks_hasSignals
        dest: waitForEvents_hasSignals signal_recv_hasSignals
        split: if_splits sum.splits option.splits)

lemma run_ops_hasSignals:
  "hasSignals st \<Longrightarrow> run_ops tg st ops = Some st' \<Longrightarrow> hasSignals st'"
proof (induction ops arbitrary: st)
  case Nil
  then show ?case by simp
next
  case (Cons x xs)
  from Cons.prems(2) obtain st1 where
    1: "apply_op tg st x = Some st1" and 2: "run_ops tg st1 xs = Some st'"
    by (auto split: option.splits)
  from Cons.prems(1) 1 have "hasSignals st1" by (rule apply_op_hasSignals)
  then show ?case using 2 by (rule Cons.IH)
qed

text \<open>
  C10. A successful \<open>signal_enable\<close> leaves \<open>hasSignals\<close> set, and no sequence of
  operations of the file clears it. With the flag set, \<open>waitForEvents\<close> does not halt;
  \<open>sleepTicks\<close> takes the path with signals: off darwin it masks the active set first
  and unmasks last, on darwin it drains first and returns without sleeping when the drain
  delivered. In particular, after \<open>signal_enable(s)\<close> from an empty active set, then
  \<open>signal_ignore(s)\<close> or \<open>signal_disable(s)\<close>, the active set is empty again, the flag
  is still set and \<open>waitForEvents\<close> still does not halt.
\<close>

theorem hasSignals_monotone:
  fixes tg :: target and k :: kernel and st :: runtime and s :: uint32 and d :: int64
  shows
    "(\<forall>st'. signal_enable st s = Inr st' \<longrightarrow> hasSignals st') \<and>
     (\<forall>ops st'. hasSignals st \<and> run_ops tg st ops = Some st' \<longrightarrow> hasSignals st') \<and>
     (hasSignals st \<longrightarrow> (\<exists>st'. waitForEvents k st = Inr st')) \<and>
     (hasSignals st \<and> GOOS tg \<noteq> ''darwin'' \<longrightarrow>
        (\<exists>cs. calls (sleepTicks tg k st d) =
                calls st @ Tinygo_wfi_mask (activeSignals st) # cs @ [Tinygo_wfi_unmask])) \<and>
     (hasSignals st \<and> GOOS tg = ''darwin'' \<and> fst (checkSignals st) \<longrightarrow>
        sleepTicks tg k st d = snd (checkSignals st)) \<and>
     (s < 32 \<and> activeSignals st = 0 \<longrightarrow>
        (\<exists>st1 st2 st3.
           signal_enable st s = Inr st1 \<and>
           signal_ignore st1 s = Inr st2 \<and> signal_disable st1 s = Inr st3 \<and>
           activeSignals st2 = 0 \<and> activeSignals st3 = 0 \<and>
           hasSignals st2 \<and> hasSignals st3 \<and>
           (\<exists>st'. waitForEvents k st2 = Inr st') \<and>
           (\<exists>st'. waitForEvents k st3 = Inr st')))"
proof -
  have en: "\<forall>st'. signal_enable st s = Inr st' \<longrightarrow> hasSignals st'"
    by (auto simp: signal_enable_def extern_def split: if_splits)
  have mono: "\<forall>ops st'. hasSignals st \<and> run_ops tg st ops = Some st' \<longrightarrow> hasSignals st'"
    using run_ops_hasSignals by blast
  have wait: "hasSignals t \<longrightarrow> (\<exists>st'. waitForEvents k t = Inr st')" for t
    by (simp add: waitForEvents_eq)
  have lin: "hasSignals st \<and> GOOS tg \<noteq> ''darwin'' \<longrightarrow>
        (\<exists>cs. calls (sleepTicks tg k st d) =
                calls st @ Tinygo_wfi_mask (activeSignals st) # cs @ [Tinygo_wfi_unmask])"
  proof (intro impI, elim conjE)
    assume a: "hasSignals st" "GOOS tg \<noteq> ''darwin''"
    have "calls (sleepTicks tg k st d) =
            calls st @ Tinygo_wfi_mask (activeSignals st) # [] @ [Tinygo_wfi_unmask] \<or>
          calls (sleepTicks tg k st d) =
            calls st @ Tinygo_wfi_mask (activeSignals st) #
              [Tinygo_wfi_sleep (activeSignals st) d] @ [Tinygo_wfi_unmask]"
      by (simp add: sleepTicks_other_eq [OF a(2,1)])
    then show "\<exists>cs. calls (sleepTicks tg k st d) =
                calls st @ Tinygo_wfi_mask (activeSignals st) # cs @ [Tinygo_wfi_unmask]"
      by blast
  qed
  have dar: "hasSignals st \<and> GOOS tg = ''darwin'' \<and> fst (checkSignals st) \<longrightarrow>
        sleepTicks tg k st d = snd (checkSignals st)"
    by (simp add: sleepTicks_darwin_eq fst_checkSignals)
  have scen: "s < 32 \<and> activeSignals st = 0 \<longrightarrow>
        (\<exists>st1 st2 st3.
           signal_enable st s = Inr st1 \<and>
           signal_ignore st1 s = Inr st2 \<and> signal_disable st1 s = Inr st3 \<and>
           activeSignals st2 = 0 \<and> activeSignals st3 = 0 \<and>
           hasSignals st2 \<and> hasSignals st3 \<and>
           (\<exists>st'. waitForEvents k st2 = Inr st') \<and>
           (\<exists>st'. waitForEvents k st3 = Inr st'))"
  proof (intro impI, elim conjE)
    assume a: "s < 32" "activeSignals st = 0"
    define st1 where "st1 = st\<lparr>hasSignals := True,
             activeSignals := activeSignals st OR push_bit (unat s) 1,
             calls := calls st @ [Tinygo_signal_enable s]\<rparr>"
    define st2 where "st2 = st1\<lparr>activeSignals := activeSignals st1 AND NOT (push_bit (unat s) 1),
             calls := calls st1 @ [Tinygo_signal_ignore s]\<rparr>"
    define st3 where "st3 = st1\<lparr>activeSignals := activeSignals st1 AND NOT (push_bit (unat s) 1),
             calls := calls st1 @ [Tinygo_signal_disable s]\<rparr>"
    have 1: "signal_enable st s = Inr st1"
      unfolding st1_def by (rule signal_enable_ok [OF a(1)])
    have 2: "signal_ignore st1 s = Inr st2"
      unfolding st2_def by (rule signal_ignore_ok [OF a(1)])
    have 3: "signal_disable st1 s = Inr st3"
      unfolding st3_def by (rule signal_disable_ok [OF a(1)])
    have z: "activeSignals st2 = 0" "activeSignals st3 = 0"
      by (simp_all add: st2_def st3_def st1_def a(2))
    have h: "hasSignals st2" "hasSignals st3"
      by (simp_all add: st2_def st3_def st1_def)
    from 1 2 3 z h wait [of st2] wait [of st3]
    show "\<exists>st1 st2 st3.
           signal_enable st s = Inr st1 \<and>
           signal_ignore st1 s = Inr st2 \<and> signal_disable st1 s = Inr st3 \<and>
           activeSignals st2 = 0 \<and> activeSignals st3 = 0 \<and>
           hasSignals st2 \<and> hasSignals st3 \<and>
           (\<exists>st'. waitForEvents k st2 = Inr st') \<and>
           (\<exists>st'. waitForEvents k st3 = Inr st')"
      by blast
  qed
  from en mono wait [of st] lin dar scen show ?thesis by blast
qed

text \<open>The theorem at signal 2, enabled and then ignored, from the initial state.\<close>

theorem hasSignals_monotone_witness:
  "(\<exists>st1 st2. signal_enable init 2 = Inr st1 \<and> signal_ignore st1 2 = Inr st2 \<and>
      activeSignals st2 = 0 \<and> hasSignals st2 \<and>
      (\<exists>st'. waitForEvents kernel0 st2 = Inr st'))"
proof -
  have "(2 :: uint32) < 32 \<and> activeSignals init = 0"
    by (simp add: init_def)
  with hasSignals_monotone [of init 2 linux32 kernel0 0] show ?thesis by blast
qed

section \<open>Reserving and growing the heap\<close>

lemma int_and_not_mask: "(i :: int) AND NOT (mask n) = i - take_bit n i"
proof -
  have "NOT i AND take_bit n i = 0"
    by (simp add: bit_eq_iff bit_simps)
  then have "i - take_bit n i = i AND NOT (take_bit n i)"
    by (rule disjunctive_diff_eq_and_not)
  also have "\<dots> = i AND NOT (mask n)"
    by (auto simp: bit_eq_iff bit_simps)
  finally show ?thesis by simp
qed

lemma and_not_4095: "and_not x 4095 = 4096 * (x div 4096)"
proof -
  have m: "(4095 :: int) = mask 12"
    by (simp add: mask_eq_exp_minus_1)
  have "int x AND NOT 4095 = int x - int x mod 4096"
    unfolding m int_and_not_mask by (simp add: take_bit_eq_mod)
  also have "\<dots> = 4096 * (int x div 4096)"
    by (simp add: minus_mod_eq_mult_div)
  finally have "int x AND NOT (int 4095) = int (4096 * (x div 4096))"
    by (simp add: zdiv_int)
  then show ?thesis
    by (simp only: and_not_def nat_int)
qed

lemma preinit_loop_find:
  "halving (m # ms) \<Longrightarrow>
   preinit_loop tg k (h\<lparr>heapMaxSize := m\<rparr>) =
     (case find (mapped tg k) (m # ms) of
        None \<Rightarrow> Inl (RuntimePanic ''cannot allocate heap memory'')
      | Some a \<Rightarrow> Inr (h\<lparr>heapMaxSize := a, heapStart := mmap k a,
                         heapEnd := uintptr tg (mmap k a + heapSize h)\<rparr>))"
proof (induction ms arbitrary: m)
  case Nil
  then show ?case
    by (subst preinit_loop.simps) (simp add: mapped_def Let_def)
next
  case (Cons m' ms)
  from Cons.prems have c: "m' = m div 2" "\<not> m' < 4096" "halving (m' # ms)"
    by auto
  show ?case
  proof (cases "mapped tg k m")
    case True
    then show ?thesis
      by (subst preinit_loop.simps) (simp add: mapped_def Let_def)
  next
    case False
    then have f: "mmap k m = 2 ^ TargetBits tg - 1"
      by (simp add: mapped_def)
    have "preinit_loop tg k (h\<lparr>heapMaxSize := m\<rparr>) =
          preinit_loop tg k (h\<lparr>heapMaxSize := m'\<rparr>)"
      using c(2) by (subst preinit_loop.simps) (simp add: f Let_def c(1))
    then show ?thesis
      using False by (simp add: Cons.IH [OF c(3)])
  qed
qed

lemma halving_candidates: "halving candidates"
  unfolding candidates_def by simp

lemma preinit_find:
  assumes "32 \<le> TargetBits tg"
  shows "preinit tg k h =
     (case find (mapped tg k) candidates of
        None \<Rightarrow> Inl (RuntimePanic ''cannot allocate heap memory'')
      | Some a \<Rightarrow> Inr (h\<lparr>heapMaxSize := a, heapStart := mmap k a,
                         heapEnd := uintptr tg (mmap k a + heapSize h)\<rparr>))"
proof -
  have "(2::nat) ^ 30 < 2 ^ TargetBits tg"
    using assms by (intro power_strict_increasing) simp_all
  then have u: "uintptr tg (1 * 1024 * 1024 * 1024) = 1073741824"
    by (simp add: uintptr_def)
  obtain ms where e: "candidates = 1073741824 # ms"
    by (simp add: candidates_def)
  have hc: "halving (1073741824 # ms)"
    using halving_candidates by (simp only: e)
  show ?thesis
    unfolding preinit_def u e by (rule preinit_loop_find [OF hc])
qed


lemma find_mapped_Some:
  "find (mapped tg k) candidates = Some a \<Longrightarrow> a \<in> set candidates \<and> mapped tg k a"
  by (auto simp: find_Some_iff)

lemma candidates_bounds:
  "a \<in> set candidates \<Longrightarrow> 4096 \<le> a \<and> a \<le> 1073741824 \<and> 4096 dvd a"
  unfolding candidates_def by auto

lemma preinit_inv:
  assumes "32 \<le> TargetBits tg" "preinit tg k heap_init = Inr h"
  shows "heap_inv h \<and> heapSize h = 131072"
proof -
  from assms(2) obtain a where a: "find (mapped tg k) candidates = Some a"
    and h: "h = heap_init\<lparr>heapMaxSize := a, heapStart := mmap k a,
                         heapEnd := uintptr tg (mmap k a + heapSize heap_init)\<rparr>"
    unfolding preinit_find [OF assms(1)] by (auto split: option.splits)
  from a have "a \<in> set candidates" by (simp add: find_mapped_Some)
  then have "4096 \<le> a \<and> a \<le> 1073741824 \<and> 4096 dvd a" by (rule candidates_bounds)
  then show ?thesis by (simp add: heap_inv_def h heap_init_def)
qed

lemma grown_ge:
  fixes x :: nat
  assumes "4096 dvd x"
  shows "x \<le> 4096 * (x * 4 div 3 div 4096)"
proof -
  from assms obtain p where p: "x = 4096 * p" by (auto simp: dvd_def)
  have "x * 4 div 3 div 4096 = x * 4 div 4096 div 3"
    by (simp add: div_mult2_eq mult.commute)
  also have "\<dots> = 4 * p div 3" by (simp add: p)
  finally have "x * 4 div 3 div 4096 = 4 * p div 3" .
  moreover have "p \<le> 4 * p div 3" by simp
  ultimately show ?thesis by (simp add: p)
qed

lemma grown_gt:
  fixes x :: nat
  assumes "4096 dvd x" "12288 \<le> x"
  shows "x < 4096 * (x * 4 div 3 div 4096)"
proof -
  from assms(1) obtain p where p: "x = 4096 * p" by (auto simp: dvd_def)
  have "x * 4 div 3 div 4096 = x * 4 div 4096 div 3"
    by (simp add: div_mult2_eq mult.commute)
  also have "\<dots> = 4 * p div 3" by (simp add: p)
  finally have "x * 4 div 3 div 4096 = 4 * p div 3" .
  moreover have "p < 4 * p div 3" using assms(2) by (simp add: p)
  ultimately show ?thesis by (simp add: p)
qed

lemma inv_no_wrap:
  assumes "heap_inv h" "heapSize h \<noteq> heapMaxSize h" "32 \<le> TargetBits tg"
  shows "uintptr tg (heapSize h * 4) = heapSize h * 4"
proof -
  from assms(1,2) have "heapSize h < 1073741824"
    by (auto simp: heap_inv_def)
  then have "heapSize h * 4 < 2 ^ 32" by simp
  also have "(2::nat) ^ 32 \<le> 2 ^ TargetBits tg"
    using assms(3) by (intro power_increasing) simp_all
  finally show ?thesis by (simp add: uintptr_def)
qed

lemma growHeap_eq:
  assumes "heap_inv h" "32 \<le> TargetBits tg"
  shows "growHeap tg h =
     (if heapSize h = heapMaxSize h then (False, h)
      else (True,
        h\<lparr>heapSize := min (4096 * (heapSize h * 4 div 3 div 4096)) (heapMaxSize h),
          heapEnd := uintptr tg (heapStart h +
             min (4096 * (heapSize h * 4 div 3 div 4096)) (heapMaxSize h))\<rparr>))"
  by (simp add: growHeap_def Let_def setHeapEnd_def and_not_4095
        inv_no_wrap [OF assms(1) _ assms(2)] min_def)


lemma growHeap_inv:
  assumes "heap_inv h" "32 \<le> TargetBits tg"
  shows "heap_inv (snd (growHeap tg h))"
proof (cases "heapSize h = heapMaxSize h")
  case True
  then show ?thesis using assms(1) by (simp add: growHeap_def)
next
  case False
  define g where "g = 4096 * (heapSize h * 4 div 3 div 4096)"
  from assms(1) have d: "4096 dvd heapSize h" by (simp add: heap_inv_def)
  then have ge: "heapSize h \<le> g" unfolding g_def by (rule grown_ge)
  have dg: "4096 dvd g" by (simp add: g_def)
  have "snd (growHeap tg h) =
      h\<lparr>heapSize := min g (heapMaxSize h),
        heapEnd := uintptr tg (heapStart h + min g (heapMaxSize h))\<rparr>"
    using False by (simp add: growHeap_eq [OF assms] g_def)
  moreover have "4096 dvd min g (heapMaxSize h)"
    using dg assms(1) by (simp add: heap_inv_def min_def)
  moreover have "min 131072 (heapMaxSize h) \<le> min g (heapMaxSize h)"
    using ge assms(1) by (simp add: heap_inv_def)
  ultimately show ?thesis
    using assms(1) by (simp add: heap_inv_def)
qed

lemma grows_inv: "heap_inv h \<Longrightarrow> 32 \<le> TargetBits tg \<Longrightarrow> heap_inv (grows tg n h)"
  by (induction n arbitrary: h) (simp_all add: growHeap_inv)

lemma growHeap_keeps:
  "heapStart (snd (growHeap tg h)) = heapStart h"
  "heapMaxSize (snd (growHeap tg h)) = heapMaxSize h"
  by (simp_all add: growHeap_def Let_def setHeapEnd_def)

lemma grows_keeps:
  "heapStart (grows tg n h) = heapStart h \<and> heapMaxSize (grows tg n h) = heapMaxSize h"
  by (induction n arbitrary: h) (simp_all add: growHeap_keeps)

lemma grows_Suc_right: "grows tg (Suc n) h = snd (growHeap tg (grows tg n h))"
  by (induction n arbitrary: h) simp_all

lemma grown_bounds:
  fixes x :: nat
  defines "g \<equiv> 4096 * (x * 4 div 3 div 4096)"
  shows "3 * g \<le> 4 * x" and "4 * x < 3 * g + 3 * 4096"
proof -
  define q where "q = x * 4 div 3"
  have 1: "g \<le> q" unfolding g_def q_def by simp
  have 2: "3 * q \<le> 4 * x" unfolding q_def by simp
  from 1 2 show "3 * g \<le> 4 * x" by simp
  have "q mod 4096 < 4096" by simp
  moreover have "q = g + q mod 4096"
    unfolding g_def q_def by simp
  ultimately have 3: "q < g + 4096" by linarith
  have "x * 4 mod 3 < 3" by simp
  moreover have "x * 4 = 3 * q + x * 4 mod 3"
    unfolding q_def by simp
  ultimately have "4 * x < 3 * q + 3" by linarith
  with 3 show "4 * x < 3 * g + 3 * 4096" by simp
qed

text \<open>
  What \<open>growHeap\<close> does in every state reached by \<open>preinit\<close> and then any number of
  calls of \<open>growHeap\<close>, on a target of 32 bits or more: when \<open>heapSize\<close> equals
  \<open>heapMaxSize\<close> it returns false and the state is unchanged; otherwise it returns true,
  \<open>heapSize\<close> becomes \<open>grown\<close> capped at \<open>heapMaxSize\<close>, and \<open>heapEnd\<close> becomes \<open>heapStart\<close>
  plus the new size, nothing else changing. \<open>grown\<close> is 4/3 of the old size rounded down to
  a multiple of 4096. The new size is larger than the old one only when the old one is
  below \<open>heapMaxSize\<close>; when it is above, the cap lowers it, as shown further down.
\<close>

lemma growHeap_all_or_nothing:
  fixes tg :: target and k :: kernel and h0 :: heap and n :: nat
  defines "h \<equiv> grows tg n h0"
  defines "grown \<equiv> 4096 * (heapSize (grows tg n h0) * 4 div 3 div 4096)"
  defines "new \<equiv> min (4096 * (heapSize (grows tg n h0) * 4 div 3 div 4096))
                     (heapMaxSize (grows tg n h0))"
  assumes "32 \<le> TargetBits tg" and "preinit tg k heap_init = Inr h0"
  shows
    "(heapSize h = heapMaxSize h \<longrightarrow> growHeap tg h = (False, h)) \<and>
     (heapSize h \<noteq> heapMaxSize h \<longrightarrow>
        growHeap tg h =
          (True, h\<lparr>heapSize := new, heapEnd := uintptr tg (heapStart h + new)\<rparr>)) \<and>
     and_not (heapSize h * 4 div 3) 4095 = grown \<and>
     4096 dvd grown \<and> 3 * grown \<le> 4 * heapSize h \<and>
     4 * heapSize h < 3 * grown + 3 * 4096 \<and>
     (heapSize h < heapMaxSize h \<longrightarrow> heapSize h < new \<and> new \<le> heapMaxSize h)"
proof -
  have inv: "heap_inv h"
    unfolding h_def using preinit_inv [OF assms(4,5)] assms(4) by (simp add: grows_inv)
  have eq: "growHeap tg h =
     (if heapSize h = heapMaxSize h then (False, h)
      else (True, h\<lparr>heapSize := new, heapEnd := uintptr tg (heapStart h + new)\<rparr>))"
    unfolding new_def h_def [symmetric] by (rule growHeap_eq [OF inv assms(4)])
  have rnd: "and_not (heapSize h * 4 div 3) 4095 = grown"
    by (simp add: and_not_4095 grown_def h_def)
  have dv: "4096 dvd grown"
    by (simp add: grown_def)
  have b: "3 * grown \<le> 4 * heapSize h" "4 * heapSize h < 3 * grown + 3 * 4096"
    unfolding grown_def h_def by (rule grown_bounds)+
  have inc: "heapSize h < new \<and> new \<le> heapMaxSize h" if lt: "heapSize h < heapMaxSize h"
  proof -
    from inv lt have "4096 dvd heapSize h" "12288 \<le> heapSize h"
      by (auto simp: heap_inv_def)
    then have "heapSize h < 4096 * (heapSize h * 4 div 3 div 4096)"
      by (rule grown_gt)
    with lt show ?thesis by (simp add: new_def h_def)
  qed
  from eq rnd dv b inc show ?thesis by simp
qed


lemma preinit_kernel0: "preinit linux32 kernel0 heap_init = Inr reserved_1GiB"
proof -
  have t: "32 \<le> TargetBits linux32" by (simp add: linux32_def)
  have "mapped linux32 kernel0 1073741824"
    by (simp add: mapped_def linux32_def kernel0_def)
  then have "find (mapped linux32 kernel0) candidates = Some 1073741824"
    by (simp add: candidates_def)
  then show ?thesis
    unfolding preinit_find [OF t]
    by (simp add: heap_init_def reserved_1GiB_def kernel0_def uintptr_def linux32_def)
qed

text \<open>The first growth of that heap: from 128 KiB to 168 KiB.\<close>

lemma growHeap_all_or_nothing_witness:
  "growHeap linux32 reserved_1GiB =
     (True, reserved_1GiB\<lparr>heapSize := 172032, heapEnd := 268607488\<rparr>)"
proof -
  have t: "32 \<le> TargetBits linux32" by (simp add: linux32_def)
  have ne: "heapSize reserved_1GiB \<noteq> heapMaxSize reserved_1GiB"
    by (simp add: reserved_1GiB_def)
  from growHeap_all_or_nothing [OF t preinit_kernel0, of 0] ne show ?thesis
    by (simp add: reserved_1GiB_def uintptr_def linux32_def)
qed

text \<open>
  C8. On a target of 32 bits or more, \<open>preinit\<close> tries the sizes of \<open>candidates\<close> in
  order, which start at 1 GiB and halve down to 4096: it halts with ``cannot allocate heap
  memory'' when \<open>mmap\<close> fails on all of them, and otherwise takes the first size \<open>mmap\<close>
  accepts as \<open>heapMaxSize\<close>, the address returned as \<open>heapStart\<close>, and \<open>heapStart\<close> plus
  \<open>heapSize\<close> as \<open>heapEnd\<close>. No call of \<open>growHeap\<close> changes \<open>heapStart\<close> or
  \<open>heapMaxSize\<close>.
\<close>

theorem preinit_reserves:
  fixes tg :: target and k :: kernel and h h' :: heap and n :: nat
  assumes "32 \<le> TargetBits tg"
  shows
    "preinit tg k h =
       (case find (\<lambda>len. mmap k len \<noteq> 2 ^ TargetBits tg - 1) candidates of
          None \<Rightarrow> Inl (RuntimePanic ''cannot allocate heap memory'')
        | Some a \<Rightarrow> Inr (h\<lparr>heapMaxSize := a, heapStart := mmap k a,
                           heapEnd := (mmap k a + heapSize h) mod 2 ^ TargetBits tg\<rparr>)) \<and>
     hd candidates = 1 * 1024 * 1024 * 1024 \<and> halving candidates \<and>
     heapStart (grows tg n h') = heapStart h' \<and>
     heapMaxSize (grows tg n h') = heapMaxSize h'"
proof -
  have m: "mapped tg k = (\<lambda>len. mmap k len \<noteq> 2 ^ TargetBits tg - 1)"
    by (rule ext) (simp add: mapped_def)
  have "preinit tg k h =
       (case find (\<lambda>len. mmap k len \<noteq> 2 ^ TargetBits tg - 1) candidates of
          None \<Rightarrow> Inl (RuntimePanic ''cannot allocate heap memory'')
        | Some a \<Rightarrow> Inr (h\<lparr>heapMaxSize := a, heapStart := mmap k a,
                           heapEnd := (mmap k a + heapSize h) mod 2 ^ TargetBits tg\<rparr>))"
    unfolding preinit_find [OF assms] m uintptr_def ..
  moreover have "hd candidates = 1 * 1024 * 1024 * 1024"
    by (simp add: candidates_def)
  ultimately show ?thesis
    using halving_candidates grows_keeps [of tg n h'] by simp
qed

text \<open>The theorem on these two kernels.\<close>

theorem preinit_reserves_witness:
  "preinit linux32 no_memory heap_init = Inl (RuntimePanic ''cannot allocate heap memory'') \<and>
   preinit linux32 tight_kernel heap_init = Inr reserved_64KiB"
proof -
  have t: "32 \<le> TargetBits linux32" by (simp add: linux32_def)
  have 1: "find (\<lambda>len. mmap no_memory len \<noteq> 2 ^ TargetBits linux32 - 1) candidates = None"
    by (simp add: no_memory_def linux32_def candidates_def)
  have 2: "find (\<lambda>len. mmap tight_kernel len \<noteq> 2 ^ TargetBits linux32 - 1) candidates
      = Some 65536"
    by (simp add: tight_kernel_def linux32_def candidates_def)
  have 3: "mmap tight_kernel 65536 = 268435456"
    by (simp add: tight_kernel_def)
  from preinit_reserves [OF t, of no_memory heap_init]
  have a: "preinit linux32 no_memory heap_init =
      Inl (RuntimePanic ''cannot allocate heap memory'')"
    unfolding 1 by simp
  from preinit_reserves [OF t, of tight_kernel heap_init]
  have b: "preinit linux32 tight_kernel heap_init = Inr reserved_64KiB"
    unfolding 2 by (simp add: 3 heap_init_def reserved_64KiB_def linux32_def)
  from a b show ?thesis ..
qed

section \<open>The size of the heap over a sequence of growths\<close>

lemma preinit_tight: "preinit linux32 tight_kernel heap_init = Inr reserved_64KiB"
proof -
  have t: "32 \<le> TargetBits linux32" by (simp add: linux32_def)
  have "find (mapped linux32 tight_kernel) candidates = Some 65536"
    by (simp add: mapped_def tight_kernel_def linux32_def candidates_def)
  then show ?thesis
    unfolding preinit_find [OF t]
    by (simp add: heap_init_def reserved_64KiB_def tight_kernel_def uintptr_def linux32_def)
qed

text \<open>
  C2 fails on the code when \<open>preinit\<close> reserves less than the 128 KiB \<open>heapSize\<close> starts
  with. With \<open>mmap\<close> failing above 64 KiB, \<open>preinit\<close> leaves \<open>heapSize\<close> at 128 KiB above
  a \<open>heapMaxSize\<close> of 64 KiB, and the first \<open>growHeap\<close> returns true and lowers
  \<open>heapSize\<close> to 64 KiB.
\<close>

theorem growHeap_shrinks:
  "preinit linux32 tight_kernel heap_init = Inr reserved_64KiB \<and>
   heapMaxSize reserved_64KiB < heapSize reserved_64KiB \<and>
   growHeap linux32 reserved_64KiB =
     (True, reserved_64KiB\<lparr>heapSize := 65536, heapEnd := 268500992\<rparr>) \<and>
   heapSize (grows linux32 1 reserved_64KiB) < heapSize (grows linux32 0 reserved_64KiB)"
proof -
  have g: "growHeap linux32 reserved_64KiB =
     (True, reserved_64KiB\<lparr>heapSize := 65536, heapEnd := 268500992\<rparr>)"
    by (simp add: growHeap_def reserved_64KiB_def Let_def setHeapEnd_def uintptr_def
          linux32_def and_not_4095)
  have "grows linux32 1 reserved_64KiB = snd (growHeap linux32 reserved_64KiB)"
    using grows_Suc_right [of linux32 0 reserved_64KiB] by simp
  then have "heapSize (grows linux32 1 reserved_64KiB) <
      heapSize (grows linux32 0 reserved_64KiB)"
    by (simp add: g) (simp add: reserved_64KiB_def)
  with preinit_tight g show ?thesis by (simp add: reserved_64KiB_def)
qed

text \<open>
  When at least 128 KiB were reserved, the size never decreases, is a multiple of 4096 and
  stays within \<open>heapMaxSize\<close>; it is a multiple of 4096 in every case.
\<close>

lemma grows_monotone_when_fits:
  assumes "32 \<le> TargetBits tg" "preinit tg k heap_init = Inr h0"
      and "131072 \<le> heapMaxSize h0"
  shows "heapSize (grows tg n h0) \<le> heapSize (grows tg (Suc n) h0) \<and>
     4096 dvd heapSize (grows tg n h0) \<and>
     heapSize (grows tg n h0) \<le> heapMaxSize (grows tg n h0)"
proof -
  define h where "h = grows tg n h0"
  have inv: "heap_inv h"
    unfolding h_def using preinit_inv [OF assms(1,2)] assms(1) by (simp add: grows_inv)
  have mx: "heapMaxSize h = heapMaxSize h0"
    by (simp add: h_def grows_keeps)
  from inv assms(3) have le: "heapSize h \<le> heapMaxSize h" and dv: "4096 dvd heapSize h"
    by (auto simp: heap_inv_def mx)
  from dv have "heapSize h \<le> 4096 * (heapSize h * 4 div 3 div 4096)"
    by (rule grown_ge)
  with le have "heapSize h \<le> heapSize (snd (growHeap tg h))"
    by (simp add: growHeap_eq [OF inv assms(1)])
  then show ?thesis
    using le dv unfolding grows_Suc_right h_def by simp
qed

lemma grows_page_multiple:
  assumes "32 \<le> TargetBits tg" "preinit tg k heap_init = Inr h0"
  shows "4096 dvd heapSize (grows tg n h0)"
  using grows_inv [OF _ assms(1), of h0 n] preinit_inv [OF assms]
  by (simp add: heap_inv_def)

text \<open>
  Whenever \<open>preinit\<close> reserved less than 128 KiB, the first \<open>growHeap\<close> returns true and
  sets \<open>heapSize\<close> to \<open>heapMaxSize\<close>, below the 128 KiB it had.
\<close>

lemma growHeap_small_reservation:
  assumes "32 \<le> TargetBits tg" "preinit tg k heap_init = Inr h0"
      and "heapMaxSize h0 < 131072"
  shows "growHeap tg h0 =
           (True, h0\<lparr>heapSize := heapMaxSize h0,
                     heapEnd := uintptr tg (heapStart h0 + heapMaxSize h0)\<rparr>) \<and>
         heapSize h0 = 131072 \<and> heapSize h0 \<noteq> heapMaxSize h0"
proof -
  from preinit_inv [OF assms(1,2)] have inv: "heap_inv h0" and sz: "heapSize h0 = 131072"
    by simp_all
  have g: "(4096::nat) * (131072 * 4 div 3 div 4096) = 172032"
    by simp
  from assms(3) have m: "min 172032 (heapMaxSize h0) = heapMaxSize h0"
    by simp
  from assms(3) sz have ne: "heapSize h0 \<noteq> heapMaxSize h0"
    by simp
  show ?thesis
    using ne sz by (simp add: growHeap_eq [OF inv assms(1)] g m)
qed

text \<open>
  C3 fails on the code in the same state as C2. After \<open>preinit\<close> with \<open>mmap\<close> failing above
  64 KiB, \<open>heapSize\<close> (128 KiB) differs from \<open>heapMaxSize\<close> (64 KiB), so \<open>growHeap\<close> takes
  the branch that is to increase the size: it returns true, and \<open>heapSize\<close> and \<open>heapEnd\<close>
  are lower than before.
\<close>

theorem growHeap_success_lowers:
  "preinit linux32 tight_kernel heap_init = Inr reserved_64KiB \<and>
   heapSize reserved_64KiB \<noteq> heapMaxSize reserved_64KiB \<and>
   fst (growHeap linux32 reserved_64KiB) \<and>
   heapSize (snd (growHeap linux32 reserved_64KiB)) = 65536 \<and>
   heapSize (snd (growHeap linux32 reserved_64KiB)) < heapSize reserved_64KiB \<and>
   heapEnd (snd (growHeap linux32 reserved_64KiB)) < heapEnd reserved_64KiB"
proof -
  have t: "32 \<le> TargetBits linux32" by (simp add: linux32_def)
  have m: "heapMaxSize reserved_64KiB < 131072" by (simp add: reserved_64KiB_def)
  from growHeap_small_reservation [OF t preinit_tight m] preinit_tight show ?thesis
    by (simp add: reserved_64KiB_def uintptr_def linux32_def)
qed


section \<open>Reading the clock\<close>

lemma getTime_uint:
  fixes a b :: uint64
  shows "uint (a * 1000000000 + b) = (uint a * 1000000000 + uint b) mod 2 ^ 64"
  by (simp add: uint_word_ariths mod_simps mult.commute)

lemma nonneg_sint_uint: "0 \<le> sint (w :: uint64) \<Longrightarrow> uint w = sint w"
proof -
  assume a: "0 \<le> sint w"
  have "sint w < 2 ^ 64" using sint_lt [of w] by simp
  with a have "take_bit 64 (sint w) = sint w" by (rule take_bit_int_eq_self)
  then show ?thesis using uint_sint [of w] by simp
qed

text \<open>
  C9. \<open>clock_gettime\<close> makes the call \<open>__clock_gettime64\<close> when \<open>TargetBits\<close> is 32 and
  the call \<open>clock_gettime\<close> on every other target, 64 bits among them, and makes no other
  call. \<open>getTime\<close> returns seconds times 10^9 plus nanoseconds of the \<open>timespec\<close> read, in
  \<open>uint64\<close> arithmetic: its value is that sum modulo 2^64, and the sum itself when both
  fields are non-negative and the sum is below 2^64. \<open>monotime\<close> and \<open>ticks\<close> are \<open>getTime\<close>
  of the raw monotonic clock, and \<open>now\<close> reads the wall clock through the same
  \<open>clock_gettime\<close>.
\<close>

theorem clock_reading:
  fixes tg :: target and k :: kernel and st :: runtime and c :: int32
    and nanotime :: "runtime \<Rightarrow> int64 \<times> runtime"
  defines "ts \<equiv> fst (clock_gettime tg k st c)"
  defines "wall \<equiv> clock_gettime tg k st (clock_REALTIME tg)"
  shows
    "(TargetBits tg = 32 \<longrightarrow>
        clock_gettime tg k st c =
          (libc_clock_gettime64 k c, st\<lparr>calls := calls st @ [Libc_clock_gettime64 c]\<rparr>)) \<and>
     (TargetBits tg \<noteq> 32 \<longrightarrow>
        clock_gettime tg k st c =
          (libc_clock_gettime k c, st\<lparr>calls := calls st @ [Libc_clock_gettime c]\<rparr>)) \<and>
     getTime tg k st c =
       (tv_sec ts * 1000000000 + tv_nsec ts, snd (clock_gettime tg k st c)) \<and>
     uint (fst (getTime tg k st c)) =
       (uint (tv_sec ts) * 1000000000 + uint (tv_nsec ts)) mod 2 ^ 64 \<and>
     (0 \<le> sint (tv_sec ts) \<and> 0 \<le> sint (tv_nsec ts) \<and>
      sint (tv_sec ts) * 1000000000 + sint (tv_nsec ts) < 2 ^ 64 \<longrightarrow>
        uint (fst (getTime tg k st c)) = sint (tv_sec ts) * 1000000000 + sint (tv_nsec ts)) \<and>
     monotime tg k st = getTime tg k st (clock_MONOTONIC_RAW tg) \<and>
     ticks tg k st = getTime tg k st (clock_MONOTONIC_RAW tg) \<and>
     now tg k nanotime st =
       ((tv_sec (fst wall), ucast (tv_nsec (fst wall)), fst (nanotime (snd wall))),
        snd (nanotime (snd wall)))"
proof -
  have v: "(TargetBits tg = 32 \<longrightarrow>
        clock_gettime tg k st c =
          (libc_clock_gettime64 k c, st\<lparr>calls := calls st @ [Libc_clock_gettime64 c]\<rparr>)) \<and>
     (TargetBits tg \<noteq> 32 \<longrightarrow>
        clock_gettime tg k st c =
          (libc_clock_gettime k c, st\<lparr>calls := calls st @ [Libc_clock_gettime c]\<rparr>))"
    by (simp add: clock_gettime_def extern_def)
  have g: "getTime tg k st c =
       (tv_sec ts * 1000000000 + tv_nsec ts, snd (clock_gettime tg k st c))"
    by (simp add: getTime_def Let_def ts_def)
  have u: "uint (fst (getTime tg k st c)) =
       (uint (tv_sec ts) * 1000000000 + uint (tv_nsec ts)) mod 2 ^ 64"
    unfolding g fst_conv by (rule getTime_uint)
  have e: "uint (fst (getTime tg k st c)) = sint (tv_sec ts) * 1000000000 + sint (tv_nsec ts)"
    if "0 \<le> sint (tv_sec ts)" "0 \<le> sint (tv_nsec ts)"
      "sint (tv_sec ts) * 1000000000 + sint (tv_nsec ts) < 2 ^ 64"
    using that unfolding u by (simp add: nonneg_sint_uint)
  have m: "monotime tg k st = getTime tg k st (clock_MONOTONIC_RAW tg) \<and>
     ticks tg k st = getTime tg k st (clock_MONOTONIC_RAW tg)"
    by (simp add: monotime_def ticks_def)
  have n: "now tg k nanotime st =
       ((tv_sec (fst wall), ucast (tv_nsec (fst wall)), fst (nanotime (snd wall))),
        snd (nanotime (snd wall)))"
    by (simp add: now_def Let_def wall_def)
  from v g u e m n show ?thesis by blast
qed

text \<open>The theorem on a 32-bit and on a 64-bit target.\<close>

theorem clock_reading_witness:
  "getTime linux32 y2038_kernel init 4 =
     (2147483648000000005, init\<lparr>calls := [Libc_clock_gettime64 4]\<rparr>) \<and>
   getTime darwin64 y2038_kernel init 4 = (0, init\<lparr>calls := [Libc_clock_gettime 4]\<rparr>)"
proof -
  have t: "TargetBits linux32 = 32" "TargetBits darwin64 \<noteq> 32"
    by (simp_all add: linux32_def darwin64_def)
  have c: "calls init = []" by (simp add: init_def)
  have k: "libc_clock_gettime64 y2038_kernel 4 = \<lparr>tv_sec = 2147483648, tv_nsec = 5\<rparr>"
      "libc_clock_gettime y2038_kernel 4 = \<lparr>tv_sec = 0, tv_nsec = 0\<rparr>"
    by (simp_all add: y2038_kernel_def kernel0_def)
  from clock_reading [of linux32 y2038_kernel init 4] t(1)
  have a: "getTime linux32 y2038_kernel init 4 =
     (2147483648000000005, init\<lparr>calls := [Libc_clock_gettime64 4]\<rparr>)"
    by (simp add: k c)
  from clock_reading [of darwin64 y2038_kernel init 4] t(2)
  have b: "getTime darwin64 y2038_kernel init 4 = (0, init\<lparr>calls := [Libc_clock_gettime 4]\<rparr>)"
    by (simp add: k c)
  from a b show ?thesis ..
qed

end
